theory Spec2Isabelle
  imports Main "HOL-Library.Word"
begin

section \<open>Python text and bytes\<close>

text \<open>
  A Python \<open>str\<close> is a sequence of Unicode code points and \<open>len\<close> counts code points, so
  a \<open>str\<close> is a list of naturals; \<open>bytes\<close> is a list of 8-bit words. \<open>lit\<close> turns an
  ASCII literal of the source into its code points.
\<close>

type_synonym pystr = "nat list"
type_synonym pybytes = "8 word list"

definition lit :: "string \<Rightarrow> pystr" where
  "lit s = map of_char s"

text \<open>\<open>str.isspace\<close> of one code point (the same set is the regex class \<open>\s\<close>).\<close>

definition py_isspace :: "nat \<Rightarrow> bool" where
  "py_isspace c \<longleftrightarrow>
     (9 \<le> c \<and> c \<le> 13) \<or> (28 \<le> c \<and> c \<le> 32) \<or> c = 133 \<or> c = 160 \<or> c = 5760 \<or>
     (8192 \<le> c \<and> c \<le> 8202) \<or> c = 8232 \<or> c = 8233 \<or> c = 8239 \<or> c = 8287 \<or> c = 12288"

definition py_lstrip :: "pystr \<Rightarrow> pystr" where
  "py_lstrip s = dropWhile py_isspace s"

definition py_rstrip :: "pystr \<Rightarrow> pystr" where
  "py_rstrip s = rev (dropWhile py_isspace (rev s))"

definition py_strip :: "pystr \<Rightarrow> pystr" where
  "py_strip s = py_lstrip (py_rstrip s)"

definition py_startswith :: "pystr \<Rightarrow> pystr \<Rightarrow> bool" where
  "py_startswith s p \<longleftrightarrow> take (length p) s = p"

definition py_endswith :: "pystr \<Rightarrow> pystr \<Rightarrow> bool" where
  "py_endswith s p \<longleftrightarrow> length p \<le> length s \<and> drop (length s - length p) s = p"

text \<open>\<open>p in s\<close> for two strings: \<open>p\<close> occurs in \<open>s\<close> as a contiguous run.\<close>

fun py_in :: "pystr \<Rightarrow> pystr \<Rightarrow> bool" where
  "py_in p [] \<longleftrightarrow> p = []"
| "py_in p (c # cs) \<longleftrightarrow> py_startswith (c # cs) p \<or> py_in p cs"

text \<open>\<open>s.split(sep, 1)\<close> for a separator of one code point: at most one cut, at the first \<open>sep\<close>.\<close>

definition py_split1 :: "nat \<Rightarrow> pystr \<Rightarrow> pystr list" where
  "py_split1 sep s =
     (if sep \<in> set s then [takeWhile (\<lambda>c. c \<noteq> sep) s, tl (dropWhile (\<lambda>c. c \<noteq> sep) s)]
      else [s])"

text \<open>\<open>s.split(sep)\<close> for a separator of one code point: a cut at every \<open>sep\<close>.\<close>

fun py_split :: "nat \<Rightarrow> pystr \<Rightarrow> pystr list" where
  "py_split sep [] = [[]]"
| "py_split sep (c # cs) =
     (if c = sep then [] # py_split sep cs
      else (case py_split sep cs of p # ps \<Rightarrow> (c # p) # ps | [] \<Rightarrow> [[c]]))"

text \<open>\<open>s.replace(old, new)\<close> for a non-empty \<open>old\<close>: left to right, non-overlapping.\<close>

fun py_replace :: "pystr \<Rightarrow> pystr \<Rightarrow> pystr \<Rightarrow> pystr" where
  "py_replace old new [] = []"
| "py_replace old new (c # cs) =
     (if old \<noteq> [] \<and> py_startswith (c # cs) old
      then new @ py_replace old new (drop (length old - 1) cs)
      else c # py_replace old new cs)"

subsection \<open>Decoding bytes\<close>

datatype exn =
    UnicodeDecodeError
  | AttributeError
  | TypeError
  | Raised pystr

datatype codec = UTF8 | Latin1
datatype errors = Strict | Ignore

text \<open>
  One step of the UTF-8 decoder on the bytes \<open>b0 # bs\<close>: either a code point and the
  number of continuation bytes it took, or an invalid sequence and the number of bytes of
  it after \<open>b0\<close> (the range the error handler is given: one byte for a bad start byte, the
  bytes before the offending one for a bad continuation, all that is left for a sequence
  the input ends in).
\<close>

datatype utf8_result = Decoded nat nat | Invalid nat

definition is_continuation :: "nat \<Rightarrow> bool" where
  "is_continuation b \<longleftrightarrow> 128 \<le> b \<and> b < 192"

fun utf8_step :: "nat \<Rightarrow> nat list \<Rightarrow> utf8_result" where
  "utf8_step b0 bs =
     (if b0 < 128 then Decoded b0 0
      else if b0 < 194 then Invalid 0
      else if b0 < 224 then
        (case bs of
           [] \<Rightarrow> Invalid 0
         | b1 # _ \<Rightarrow>
             if is_continuation b1 then Decoded ((b0 - 192) * 64 + (b1 - 128)) 1
             else Invalid 0)
      else if b0 < 240 then
        (case bs of
           [] \<Rightarrow> Invalid 0
         | b1 # bs1 \<Rightarrow>
             if \<not> is_continuation b1 \<or> (b0 = 224 \<and> b1 < 160) \<or> (b0 = 237 \<and> 160 \<le> b1)
             then Invalid 0
             else (case bs1 of
                     [] \<Rightarrow> Invalid 1
                   | b2 # _ \<Rightarrow>
                       if is_continuation b2
                       then Decoded ((b0 - 224) * 4096 + (b1 - 128) * 64 + (b2 - 128)) 2
                       else Invalid 1))
      else if b0 < 245 then
        (case bs of
           [] \<Rightarrow> Invalid 0
         | b1 # bs1 \<Rightarrow>
             if \<not> is_continuation b1 \<or> (b0 = 240 \<and> b1 < 144) \<or> (b0 = 244 \<and> 144 \<le> b1)
             then Invalid 0
             else (case bs1 of
                     [] \<Rightarrow> Invalid 1
                   | b2 # bs2 \<Rightarrow>
                       if \<not> is_continuation b2 then Invalid 1
                       else (case bs2 of
                               [] \<Rightarrow> Invalid 2
                             | b3 # _ \<Rightarrow>
                                 if is_continuation b3
                                 then Decoded ((b0 - 240) * 262144 + (b1 - 128) * 4096
                                               + (b2 - 128) * 64 + (b3 - 128)) 3
                                 else Invalid 2)))
      else Invalid 0)"

fun utf8_decode :: "errors \<Rightarrow> nat list \<Rightarrow> exn + pystr" where
  "utf8_decode m [] = Inr []"
| "utf8_decode m (b0 # bs) =
     (case utf8_step b0 bs of
        Decoded c k \<Rightarrow>
          (case utf8_decode m (drop k bs) of Inl e \<Rightarrow> Inl e | Inr s \<Rightarrow> Inr (c # s))
      | Invalid k \<Rightarrow>
          (case m of Strict \<Rightarrow> Inl UnicodeDecodeError | Ignore \<Rightarrow> utf8_decode m (drop k bs)))"

text \<open>\<open>b.decode(codec, errors=...)\<close>; latin-1 maps every byte to the code point of its value.\<close>

definition bytes_decode :: "codec \<Rightarrow> errors \<Rightarrow> pybytes \<Rightarrow> exn + pystr" where
  "bytes_decode c m b =
     (case c of UTF8 \<Rightarrow> utf8_decode m (map unat b) | Latin1 \<Rightarrow> Inr (map unat b))"

text \<open>
  \<^verbatim>\<open>
  def _safe_decode(b_line: bytes) -> str:
      try:
          return b_line.decode("utf-8")
      except UnicodeDecodeError:
          try:
              return b_line.decode("utf-8", errors="ignore")
          except Exception:
              return b_line.decode("latin1", errors="ignore")
  \<close>
\<close>

definition safe_decode :: "pybytes \<Rightarrow> exn + pystr" where
  "safe_decode b_line =
     (case bytes_decode UTF8 Strict b_line of
        Inr s \<Rightarrow> Inr s
      | Inl UnicodeDecodeError \<Rightarrow>
          (case bytes_decode UTF8 Ignore b_line of
             Inr s \<Rightarrow> Inr s
           | Inl _ \<Rightarrow> bytes_decode Latin1 Ignore b_line)
      | Inl e \<Rightarrow> Inl e)"

section \<open>The request and the query text\<close>

datatype mode = Ppt | PptFast | Doc | Excel

record MakeDeckReq =
  topic :: pystr
  template_hint :: "pystr option"
  use_network :: bool
  mode :: mode
  outline_md :: "pystr option"

text \<open>Truth value of an \<open>Optional[str]\<close>: neither \<open>None\<close> nor empty.\<close>

definition opt_truthy :: "pystr option \<Rightarrow> bool" where
  "opt_truthy x \<longleftrightarrow> (case x of None \<Rightarrow> False | Some s \<Rightarrow> s \<noteq> [])"

text \<open>The dictionary \<open>mode_desc\<close> of \<open>build_query\<close>.\<close>

definition mode_desc :: "mode \<Rightarrow> pystr" where
  "mode_desc m =
     (case m of Ppt \<Rightarrow> lit ''{topic}'' | PptFast \<Rightarrow> lit ''{topic}''
      | Doc \<Rightarrow> lit ''{topic}'' | Excel \<Rightarrow> lit ''{topic}'')"

text \<open>\<open>template.format(topic=t)\<close> for a template whose only braces are \<open>{topic}\<close> fields.\<close>

definition format_topic :: "pystr \<Rightarrow> pystr \<Rightarrow> pystr" where
  "format_topic template t = py_replace (lit ''{topic}'') t template"

text \<open>
  \<^verbatim>\<open>
  def build_query(req):
      if req.outline_md:
          prefix = f"<outline prefix>\n{req.outline_md}\n"
      else:
          mode_desc = {"ppt": "{topic}", "ppt-fast": "{topic}", "doc": "{topic}", "excel": "{topic}"}
          prefix = mode_desc.get(req.mode, mode_desc["ppt-fast"]).format(topic=req.topic)
      hint = f" <hint prefix>{req.template_hint}<full stop>" if req.template_hint else ""
      return (prefix + hint).strip()
  \<close>
  The three Chinese literals are given by their code points.
\<close>

definition outline_prefix :: pystr where
  "outline_prefix = [35831, 22522, 20110, 20197, 19979, 22823, 32434, 29983, 25104, 65306, 10]"

definition hint_prefix :: pystr where
  "hint_prefix = [32, 27169, 26495, 47, 21697, 29260, 35201, 27714, 65306]"

definition hint_suffix :: pystr where
  "hint_suffix = [12290]"

definition build_query :: "MakeDeckReq \<Rightarrow> pystr" where
  "build_query req =
     (let prefix =
            (if opt_truthy (outline_md req) then outline_prefix @ the (outline_md req) @ [10]
             else format_topic (mode_desc (mode req)) (topic req));
          hint =
            (if opt_truthy (template_hint req)
             then hint_prefix @ the (template_hint req) @ hint_suffix else [])
      in py_strip (prefix @ hint))"

section \<open>Finding URLs\<close>

text \<open>
  \<^verbatim>\<open>URL_RE = re.compile(r'https?://[^\s"\'<>]+', re.IGNORECASE)\<close>
  Under \<open>IGNORECASE\<close> the letters \<open>h\<close>, \<open>t\<close>, \<open>p\<close> match their capitals too, and \<open>s\<close> also
  the long s (code point 383).
\<close>

definition url_char :: "nat \<Rightarrow> bool" where
  "url_char c \<longleftrightarrow> \<not> py_isspace c \<and> c \<noteq> 34 \<and> c \<noteq> 39 \<and> c \<noteq> 60 \<and> c \<noteq> 62"

definition is_http :: "pystr \<Rightarrow> bool" where
  "is_http s \<longleftrightarrow>
     (case s of
        h # t1 # t2 # p # _ \<Rightarrow>
          (h = 104 \<or> h = 72) \<and> (t1 = 116 \<or> t1 = 84) \<and> (t2 = 116 \<or> t2 = 84) \<and> (p = 112 \<or> p = 80)
      | _ \<Rightarrow> False)"

text \<open>The length of the match of \<open>https?://\<close> at the start of \<open>s\<close>, when there is one.\<close>

definition scheme_len :: "pystr \<Rightarrow> nat option" where
  "scheme_len s =
     (if is_http s then
        (if (case drop 4 s of c # _ \<Rightarrow> c = 115 \<or> c = 83 \<or> c = 383 | [] \<Rightarrow> False)
            \<and> py_startswith (drop 5 s) (lit ''://'')
         then Some 8
         else if py_startswith (drop 4 s) (lit ''://'') then Some 7
         else None)
      else None)"

text \<open>The match of the whole pattern at the start of \<open>s\<close>, when there is one.\<close>

definition url_match :: "pystr \<Rightarrow> pystr option" where
  "url_match s =
     (case scheme_len s of
        None \<Rightarrow> None
      | Some n \<Rightarrow>
          (let body = takeWhile url_char (drop n s)
           in if body = [] then None else Some (take n s @ body)))"

text \<open>\<open>URL_RE.findall(text)\<close>: the matches from left to right, the scan resuming after each.\<close>

fun URL_RE_findall :: "pystr \<Rightarrow> pystr list" where
  "URL_RE_findall [] = []"
| "URL_RE_findall (c # cs) =
     (case url_match (c # cs) of
        Some m \<Rightarrow> m # URL_RE_findall (drop (length m - 1) cs)
      | None \<Rightarrow> URL_RE_findall cs)"

section \<open>JSON values and the runtime\<close>

text \<open>
  What \<open>json.loads\<close> returns: \<open>None\<close>, a bool, an int, a float (kept as its 64 bits), a
  \<open>str\<close>, a list or a dict (its items in order).
\<close>

datatype json =
    JNull
  | JBool bool
  | JInt int
  | JFloat "64 word"
  | JStr pystr
  | JArr "json list"
  | JObj "(pystr \<times> json) list"

type_synonym pydict = "(pystr \<times> json) list"

text \<open>Truth value of a Python object; a float is false when it is plus or minus zero.\<close>

fun truthy :: "json \<Rightarrow> bool" where
  "truthy JNull \<longleftrightarrow> False"
| "truthy (JBool b) \<longleftrightarrow> b"
| "truthy (JInt i) \<longleftrightarrow> i \<noteq> 0"
| "truthy (JFloat w) \<longleftrightarrow> push_bit 1 w \<noteq> 0"
| "truthy (JStr s) \<longleftrightarrow> s \<noteq> []"
| "truthy (JArr xs) \<longleftrightarrow> xs \<noteq> []"
| "truthy (JObj m) \<longleftrightarrow> m \<noteq> []"

text \<open>\<open>a or b\<close>.\<close>

definition py_or :: "json \<Rightarrow> json \<Rightarrow> json" where
  "py_or a b = (if truthy a then a else b)"

text \<open>\<open>d.get(k)\<close>, \<open>d[k] = v\<close> (a new key goes last, an old one keeps its place) and \<open>d.update(e)\<close>.\<close>

definition dict_get :: "pydict \<Rightarrow> pystr \<Rightarrow> json" where
  "dict_get d k = (case map_of d k of None \<Rightarrow> JNull | Some v \<Rightarrow> v)"

fun dict_set :: "pystr \<Rightarrow> json \<Rightarrow> pydict \<Rightarrow> pydict" where
  "dict_set k v [] = [(k, v)]"
| "dict_set k v ((k', v') # d) = (if k' = k then (k', v) # d else (k', v') # dict_set k v d)"

definition dict_update :: "pydict \<Rightarrow> pydict \<Rightarrow> pydict" where
  "dict_update d e = foldl (\<lambda>acc (k, v). dict_set k v acc) d e"

text \<open>
  The library calls and the configuration the code reads are parameters of the model:
  \<^item> \<open>SKY_ID\<close>, \<open>SKY_KEY\<close>, \<open>DECKPILOT_PREFERRED_EXTS\<close>: the environment variables;
  \<^item> \<open>str_lower s\<close>: \<open>s.lower()\<close>, the lower-casing of the Unicode tables;
  \<^item> \<open>md5_hexdigest x\<close>: \<open>hashlib.md5(x.encode("utf-8")).hexdigest()\<close>;
  \<^item> \<open>list_of_set xs\<close>: \<open>list(set(xs))\<close>, whose order Python leaves open;
  \<^item> \<open>json_loads\<close>: \<open>json.loads\<close>, \<open>None\<close> when it raises;
  \<^item> \<open>json_dumps\<close>: \<open>json.dumps(_, ensure_ascii=False)\<close>;
  \<^item> \<open>urljoin\<close>: \<open>urllib.parse.urljoin\<close>;
  \<^item> \<open>url_query u\<close>: \<open>parse_qs(urlparse(u).query)\<close>, \<open>None\<close> when it raises;
  \<^item> \<open>format_value v\<close>: the text an f-string puts for a value that is not a \<open>str\<close>;
  \<^item> \<open>str_exn e\<close>: \<open>str(e)\<close> of an exception;
  \<^item> \<open>requests_post n url payload\<close>: the outcome of the \<open>(n+1)\<close>-th \<open>requests.post\<close> of the
    session, \<open>None\<close> for a response and \<open>Some e\<close> for the exception it raises.
\<close>

record runtime =
  SKY_ID :: pystr
  SKY_KEY :: pystr
  DECKPILOT_PREFERRED_EXTS :: "pystr option"
  str_lower :: "pystr \<Rightarrow> pystr"
  md5_hexdigest :: "pystr \<Rightarrow> pystr"
  list_of_set :: "pystr list \<Rightarrow> pystr list"
  json_loads :: "pystr \<Rightarrow> json option"
  json_dumps :: "json \<Rightarrow> pystr"
  urljoin :: "pystr \<Rightarrow> pystr \<Rightarrow> exn + pystr"
  url_query :: "pystr \<Rightarrow> (pystr \<times> pystr list) list option"
  format_value :: "json \<Rightarrow> pystr"
  str_exn :: "exn \<Rightarrow> pystr"
  requests_post :: "nat \<Rightarrow> pystr \<Rightarrow> json \<Rightarrow> exn option"

text \<open>
  \<^verbatim>\<open>
  def sky_sign(secret_id, secret_key):
      return hashlib.md5(f"{secret_id}:{secret_key}".encode("utf-8")).hexdigest()
  \<close>
\<close>

definition sky_sign :: "runtime \<Rightarrow> pystr \<Rightarrow> pystr \<Rightarrow> pystr" where
  "sky_sign rt secret_id secret_key = md5_hexdigest rt (secret_id @ lit '':'' @ secret_key)"

text \<open>
  \<^verbatim>\<open>
  def _collect_urls_from_text(text):
      return list(set(URL_RE.findall(text)))
  \<close>
\<close>

definition collect_urls_from_text :: "runtime \<Rightarrow> pystr \<Rightarrow> pystr list" where
  "collect_urls_from_text rt text = list_of_set rt (URL_RE_findall text)"

section \<open>Ranking URLs\<close>

text \<open>
  \<^verbatim>\<open>PREFERRED_EXTS = tuple(os.getenv("DECKPILOT_PREFERRED_EXTS", "pptx,docx,xlsx,pdf,zip").lower().split(","))\<close>
\<close>

definition PREFERRED_EXTS :: "runtime \<Rightarrow> pystr list" where
  "PREFERRED_EXTS rt =
     py_split 44 (str_lower rt (case DECKPILOT_PREFERRED_EXTS rt of
                                  None \<Rightarrow> lit ''pptx,docx,xlsx,pdf,zip'' | Some v \<Rightarrow> v))"

text \<open>
  \<^verbatim>\<open>
  def _score_url(u):
      s = u.lower()
      score = 10
      for i, ext in enumerate(PREFERRED_EXTS, start=1):
          if s.endswith("." + ext):
              score += 100 - i
      if "download" in s or "export" in s or "file" in s:
          score += 15
      if "signature=" in s or "token=" in s:
          score += 10
      return score
  \<close>
  \<open>ext_loop\<close> is the \<open>for\<close> loop, with the counter \<open>i\<close> and the running score.
\<close>

fun ext_loop :: "pystr \<Rightarrow> pystr list \<Rightarrow> int \<Rightarrow> int \<Rightarrow> int" where
  "ext_loop s [] i score = score"
| "ext_loop s (ext # exts) i score =
     ext_loop s exts (i + 1) (if py_endswith s (46 # ext) then score + (100 - i) else score)"

definition score_url :: "runtime \<Rightarrow> pystr \<Rightarrow> int" where
  "score_url rt u =
     (let s = str_lower rt u;
          score = ext_loop s (PREFERRED_EXTS rt) 1 10;
          score = (if py_in (lit ''download'') s \<or> py_in (lit ''export'') s \<or> py_in (lit ''file'') s
                   then score + 15 else score);
          score = (if py_in (lit ''signature='') s \<or> py_in (lit ''token='') s
                   then score + 10 else score)
      in score)"

text \<open>
  \<open>sorted(xs, key=f, reverse=True)\<close>: the stable sort run on the reversed list and
  reversed again, so elements of equal key keep their order.
\<close>

definition sorted_reverse :: "('a \<Rightarrow> int) \<Rightarrow> 'a list \<Rightarrow> 'a list" where
  "sorted_reverse f xs = rev (sort_key f (rev xs))"

text \<open>
  \<^verbatim>\<open>
  def _pick_best_url(urls):
      if not urls:
          return None
      return sorted(urls, key=_score_url, reverse=True)[0]
  \<close>
\<close>

definition pick_best_url :: "runtime \<Rightarrow> pystr list \<Rightarrow> pystr option" where
  "pick_best_url rt urls =
     (if urls = [] then None else Some (hd (sorted_reverse (score_url rt) urls)))"

section \<open>The handshake payload\<close>

definition meta_keys :: "pystr list" where
  "meta_keys = [lit ''session_id'', lit ''sessionId'', lit ''conversation_id'',
                lit ''conversationId'', lit ''channel'', lit ''room'']"

definition query_keys :: "pystr list" where
  "query_keys = [lit ''sessionId'', lit ''session_id'', lit ''conversationId'',
                 lit ''conversation_id'']"

text \<open>
  \<^verbatim>\<open>
  def _endpoint_and_context_from_data(data):
      endpoint = None
      ctx = {}
      if data.startswith("{"):
          try:
              meta = json.loads(data)
              endpoint = meta.get("endpoint") or meta.get("url")
              if isinstance(meta.get("context"), dict):
                  ctx.update(meta["context"])
              for k in ("session_id","sessionId","conversation_id","conversationId","channel","room"):
                  if k in meta:
                      ctx[k] = meta[k]
          except Exception:
              endpoint = data
      else:
          endpoint = data
      if not endpoint:
          return None, ctx
      if endpoint.startswith("/"):
          endpoint = urljoin("https://api.skywork.ai", endpoint)
      try:
          parsed = urlparse(endpoint)
          q = parse_qs(parsed.query)
          for k in ("sessionId","session_id","conversationId","conversation_id"):
              if k in q and q[k]:
                  ctx[k] = q[k][0]
      except Exception:
          pass
      return endpoint, ctx
  \<close>
  \<open>meta_fields\<close> is the first \<open>if\<close>: the endpoint value (\<open>JNull\<close> for \<open>None\<close>) and \<open>ctx\<close>.
  Inside its \<open>try\<close>, only \<open>json.loads\<close> and the first \<open>meta.get\<close> (on a value that is not a
  dict) can raise, both before \<open>ctx\<close> is touched. A true endpoint that is not a \<open>str\<close> has
  no \<open>startswith\<close>: that \<open>AttributeError\<close>, and an exception of \<open>urljoin\<close>, leave the
  function.
\<close>

definition meta_fields :: "runtime \<Rightarrow> pystr \<Rightarrow> json \<times> pydict" where
  "meta_fields rt data =
     (if py_startswith data (lit ''{'') then
        (case json_loads rt data of
           Some (JObj meta) \<Rightarrow>
             (let endpoint = py_or (dict_get meta (lit ''endpoint'')) (dict_get meta (lit ''url''));
                  ctx = (case dict_get meta (lit ''context'') of
                           JObj c \<Rightarrow> dict_update [] c | _ \<Rightarrow> []);
                  ctx = foldl (\<lambda>ctx k. case map_of meta k of
                                           Some v \<Rightarrow> dict_set k v ctx | None \<Rightarrow> ctx)
                              ctx meta_keys
              in (endpoint, ctx))
         | _ \<Rightarrow> (JStr data, []))
      else (JStr data, []))"

definition endpoint_and_context_from_data ::
  "runtime \<Rightarrow> pystr \<Rightarrow> exn + (pystr option \<times> pydict)" where
  "endpoint_and_context_from_data rt data =
     (case meta_fields rt data of
        (endpoint, ctx) \<Rightarrow>
          if \<not> truthy endpoint then Inr (None, ctx)
          else (case endpoint of
                  JStr e \<Rightarrow>
                    (case (if py_startswith e (lit ''/'')
                           then urljoin rt (lit ''https://api.skywork.ai'') e else Inr e) of
                       Inl ex \<Rightarrow> Inl ex
                     | Inr e' \<Rightarrow>
                         Inr (Some e',
                              (case url_query rt e' of
                                 None \<Rightarrow> ctx
                               | Some q \<Rightarrow>
                                   foldl (\<lambda>ctx k. case map_of q k of
                                                     Some (v # _) \<Rightarrow> dict_set k (JStr v) ctx
                                                   | _ \<Rightarrow> ctx)
                                         ctx query_keys)))
                | _ \<Rightarrow> Inl AttributeError))"

section \<open>The relay: one client session\<close>

text \<open>
  The variables \<open>flush_and_emit\<close> shares with \<open>event_stream\<close> (\<open>nonlocal\<close>);
  \<open>session_context\<close> is the variable \<open>context\<close>. \<open>posts\<close> is not a variable of the code: it
  lists the \<open>requests.post\<close> calls made so far, URL and JSON body.
\<close>

record session =
  endpoint_url :: "pystr option"
  called :: bool
  session_context :: pydict
  sent_done :: bool
  posts :: "(pystr \<times> json) list"

text \<open>What \<open>make_deck_stream\<close> computes from the request before the stream starts.\<close>

record deck =
  query_text :: pystr
  use_network_param :: pystr
  tool_name :: pystr
  export_ext :: pystr

subsection \<open>Downstream chunks\<close>

definition done_literal :: pystr where
  "done_literal = lit ''event: done\<newline>data: [DONE]\<newline>\<newline>''"

definition done_url :: "runtime \<Rightarrow> pystr \<Rightarrow> pystr" where
  "done_url rt link =
     lit ''event: done\<newline>data: '' @ json_dumps rt (JObj [(lit ''download_url'', JStr link)])
     @ lit ''\<newline>\<newline>''"

definition eof_marker :: pystr where
  "eof_marker = lit '': EOF\<newline>\<newline>''"

definition error_event :: "pystr \<Rightarrow> pystr" where
  "error_event msg = lit ''event: error\<newline>data: '' @ msg @ lit ''\<newline>\<newline>''"

definition log_event :: "pystr \<Rightarrow> pystr" where
  "log_event msg = lit ''event: log\<newline>data: '' @ msg @ lit ''\<newline>\<newline>''"

text \<open>The log line sent after the trigger call (a Chinese sentence and three dots).\<close>

definition engine_connected :: pystr where
  "engine_connected = [24050, 36830, 25509, 24341, 25806, 65292, 27491, 22312, 29983, 25104,
                       22823, 32434, 19982, 20869, 23481, 46, 46, 46]"

text \<open>The text an f-string puts for a value: a \<open>str\<close> as it is.\<close>

definition fstring :: "runtime \<Rightarrow> json \<Rightarrow> pystr" where
  "fstring rt v = (case v of JStr s \<Rightarrow> s | _ \<Rightarrow> format_value rt v)"

subsection \<open>Assembling a record\<close>

text \<open>
  \<^verbatim>\<open>
  name, data_str = "message", ""
  for ln in buf:
      if ln.startswith("event:"):
          name = ln.split(":", 1)[1].strip()
      elif ln.startswith("data:"):
          data_str += ln.split(":", 1)[1].lstrip() + "\n"
  \<close>
  Both prefixes hold a colon, so \<open>split(":", 1)\<close> has its second element.
\<close>

fun parse_fields :: "pystr list \<Rightarrow> pystr \<Rightarrow> pystr \<Rightarrow> pystr \<times> pystr" where
  "parse_fields [] name data_str = (name, data_str)"
| "parse_fields (ln # buf) name data_str =
     (if py_startswith ln (lit ''event:'')
      then parse_fields buf (py_strip (py_split1 58 ln ! 1)) data_str
      else if py_startswith ln (lit ''data:'')
      then parse_fields buf name (data_str @ py_lstrip (py_split1 58 ln ! 1) @ [10])
      else parse_fields buf name data_str)"

subsection \<open>The log message of a record\<close>

text \<open>
  \<open>"text" in x\<close> and \<open>x["text"]\<close> on a JSON value: the first raises \<open>TypeError\<close> on
  \<open>None\<close>, a bool and a number, the second on all but a dict.
\<close>

definition has_text :: "json \<Rightarrow> exn + bool" where
  "has_text x =
     (case x of
        JStr s \<Rightarrow> Inr (py_in (lit ''text'') s)
      | JArr xs \<Rightarrow> Inr (JStr (lit ''text'') \<in> set xs)
      | JObj d \<Rightarrow> Inr (map_of d (lit ''text'') \<noteq> None)
      | _ \<Rightarrow> Inl TypeError)"

definition get_text :: "json \<Rightarrow> exn + json" where
  "get_text x =
     (case x of
        JObj d \<Rightarrow> Inr (dict_get d (lit ''text''))
      | _ \<Rightarrow> Inl TypeError)"

text \<open>
  \<^verbatim>\<open>
  log_msg = None
  if isinstance(json_obj, dict):
      if "message" in json_obj:
          log_msg = json_obj["message"]
      elif "content" in json_obj:
           c = json_obj["content"]
           if isinstance(c, list) and len(c) > 0 and "text" in c[0]:
               t = c[0]["text"]
               if not t.strip().startswith("{"):
                   log_msg = t
  if not log_msg and not data_str.startswith("{") and len(data_str) < 200:
      log_msg = data_str
  \<close>
\<close>

definition json_log_msg :: "json \<Rightarrow> exn + json" where
  "json_log_msg json_obj =
     (case json_obj of
        JObj d \<Rightarrow>
          (if map_of d (lit ''message'') \<noteq> None then Inr (dict_get d (lit ''message''))
           else if map_of d (lit ''content'') \<noteq> None then
             (case dict_get d (lit ''content'') of
                JArr (c0 # _) \<Rightarrow>
                  (case has_text c0 of
                     Inl e \<Rightarrow> Inl e
                   | Inr False \<Rightarrow> Inr JNull
                   | Inr True \<Rightarrow>
                       (case get_text c0 of
                          Inl e \<Rightarrow> Inl e
                        | Inr t \<Rightarrow>
                            (case t of
                               JStr ts \<Rightarrow>
                                 if \<not> py_startswith (py_strip ts) (lit ''{'') then Inr t
                                 else Inr JNull
                             | _ \<Rightarrow> Inl AttributeError)))
              | _ \<Rightarrow> Inr JNull)
           else Inr JNull)
      | _ \<Rightarrow> Inr JNull)"

definition log_msg_of :: "json \<Rightarrow> pystr \<Rightarrow> exn + json" where
  "log_msg_of json_obj data_str =
     (case json_log_msg json_obj of
        Inl e \<Rightarrow> Inl e
      | Inr log_msg \<Rightarrow>
          if \<not> truthy log_msg \<and> \<not> py_startswith data_str (lit ''{'') \<and> length data_str < 200
          then Inr (JStr data_str) else Inr log_msg)"

subsection \<open>The handshake and the trigger call\<close>

text \<open>The JSON body of the \<open>tools/call\<close> request.\<close>

definition trigger_payload :: "runtime \<Rightarrow> deck \<Rightarrow> pydict \<Rightarrow> json" where
  "trigger_payload rt dk ctx =
     JObj [(lit ''jsonrpc'', JStr (lit ''2.0'')),
           (lit ''id'', JInt 1),
           (lit ''secret_id'', JStr (SKY_ID rt)),
           (lit ''sign'', JStr (sky_sign rt (SKY_ID rt) (SKY_KEY rt))),
           (lit ''method'', JStr (lit ''tools/call'')),
           (lit ''params'',
              JObj ([(lit ''name'', JStr (tool_name dk)),
                     (lit ''arguments'',
                        JObj [(lit ''query'', JStr (query_text dk)),
                              (lit ''use_network'', JStr (use_network_param dk)),
                              (lit ''export'', JStr (export_ext dk)),
                              (lit ''status_updates'', JBool True),
                              (lit ''debug'', JBool True)])]
                    @ (if ctx \<noteq> [] then [(lit ''context'', JObj ctx)] else [])))]"

text \<open>
  \<^verbatim>\<open>
  if name == "endpoint":
      endpoint_url, ctx = _endpoint_and_context_from_data(data_str)
      if ctx:
          context.update(ctx)
      if not called and endpoint_url:
          ... payload ...
          try:
              _ = requests.post(endpoint_url, json=payload, headers=..., timeout=60)
          except Exception as e:
              yield f"event: error\ndata: tools/call failed: {str(e)}\n\n"
              if not sent_done:
                  yield "event: done\ndata: [DONE]\n\n"
                  sent_done = True
              return
          called = True
          yield "event: log\ndata: <engine connected>\n\n"
      return
  \<close>
\<close>

definition handle_endpoint ::
  "runtime \<Rightarrow> deck \<Rightarrow> session \<Rightarrow> pystr \<Rightarrow> exn + (pystr list \<times> session)" where
  "handle_endpoint rt dk s data_str =
     (case endpoint_and_context_from_data rt data_str of
        Inl e \<Rightarrow> Inl e
      | Inr (ep, ctx) \<Rightarrow>
          (let s1 = s\<lparr>endpoint_url := ep,
                      session_context := (if ctx \<noteq> [] then dict_update (session_context s) ctx
                                          else session_context s)\<rparr>
           in if \<not> called s1 \<and> opt_truthy ep then
                (let payload = trigger_payload rt dk (session_context s1);
                     s2 = s1\<lparr>posts := posts s1 @ [(the ep, payload)]\<rparr>
                 in case requests_post rt (length (posts s1)) (the ep) payload of
                      Some e \<Rightarrow>
                        Inr ([error_event (lit ''tools/call failed: '' @ str_exn rt e)]
                             @ (if \<not> sent_done s2 then [done_literal] else []),
                             (if \<not> sent_done s2 then s2\<lparr>sent_done := True\<rparr> else s2))
                    | None \<Rightarrow> Inr ([log_event engine_connected], s2\<lparr>called := True\<rparr>))
              else Inr ([], s1)))"

subsection \<open>One record\<close>

text \<open>
  The part of \<open>flush_and_emit\<close> after the URL check: ping, handshake, token exhaustion,
  log. \<open>json_obj\<close> is \<open>None\<close> when \<open>json.loads\<close> raises.
  \<^verbatim>\<open>
  json_obj = None
  try:
      json_obj = json.loads(data_str)
  except Exception:
      pass
  if isinstance(json_obj, dict) and json_obj.get("method") == "ping":
      yield "event: log\ndata: ...\n\n"
      return
  if name == "endpoint":
      ...
      return
  if "token exhausted" in data_str.lower():
      yield "event: error\ndata: Token exhausted\n\n"
      if not sent_done:
          yield "event: done\ndata: [DONE]\n\n"
          sent_done = True
      return
  ... log_msg ...
  if log_msg:
       yield f"event: log\ndata: {log_msg}\n\n"
  \<close>
\<close>

definition is_ping :: "json \<Rightarrow> bool" where
  "is_ping json_obj \<longleftrightarrow>
     (case json_obj of JObj d \<Rightarrow> dict_get d (lit ''method'') = JStr (lit ''ping'') | _ \<Rightarrow> False)"

definition handle_record ::
  "runtime \<Rightarrow> deck \<Rightarrow> session \<Rightarrow> pystr \<Rightarrow> pystr \<Rightarrow> exn + (pystr list \<times> session)" where
  "handle_record rt dk s name data_str =
     (let json_obj = (case json_loads rt data_str of None \<Rightarrow> JNull | Some v \<Rightarrow> v)
      in if is_ping json_obj then Inr ([log_event (lit ''...'')], s)
         else if name = lit ''endpoint'' then handle_endpoint rt dk s data_str
         else if py_in (lit ''token exhausted'') (str_lower rt data_str) then
           Inr ([error_event (lit ''Token exhausted'')]
                @ (if \<not> sent_done s then [done_literal] else []),
                (if \<not> sent_done s then s\<lparr>sent_done := True\<rparr> else s))
         else (case log_msg_of json_obj data_str of
                 Inl e \<Rightarrow> Inl e
               | Inr log_msg \<Rightarrow>
                   if truthy log_msg then Inr ([log_event (fstring rt log_msg)], s)
                   else Inr ([], s)))"

text \<open>
  \<^verbatim>\<open>
  def flush_and_emit(buf):
      nonlocal endpoint_url, called, context, sent_done
      if not buf or sent_done:
          return
      ... name, data_str ...
      data_str = data_str.strip()
      if not data_str:
          return
      raw_urls = _collect_urls_from_text(data_str)
      best_link = _pick_best_url(raw_urls)
      if best_link:
          best_link = best_link.replace(r"\u0026", "&")
          yield "event: done\ndata: " + json.dumps({"download_url": best_link}, ensure_ascii=False) + "\n\n"
          yield ": EOF\n\n"
          sent_done = True
          return
      ...
  \<close>
  The result is the chunks yielded and the session after the call, or the exception that
  leaves the call (none of its paths yields before it raises).
\<close>

definition escaped_amp :: pystr where
  "escaped_amp = 92 # lit ''u0026''"

definition flush_and_emit ::
  "runtime \<Rightarrow> deck \<Rightarrow> session \<Rightarrow> pystr list \<Rightarrow> exn + (pystr list \<times> session)" where
  "flush_and_emit rt dk s buf =
     (if buf = [] \<or> sent_done s then Inr ([], s)
      else (case parse_fields buf (lit ''message'') [] of
              (name, data_str0) \<Rightarrow>
                (let data_str = py_strip data_str0
                 in if data_str = [] then Inr ([], s)
                    else (let raw_urls = collect_urls_from_text rt data_str;
                              best_link = pick_best_url rt raw_urls
                          in if opt_truthy best_link then
                               Inr ([done_url rt (py_replace escaped_amp (lit ''&'') (the best_link)),
                                     eof_marker],
                                    s\<lparr>sent_done := True\<rparr>)
                             else handle_record rt dk s name data_str))))"

subsection \<open>The read loop and the stream\<close>

text \<open>
  The upstream: \<open>requests.get\<close> raises, or answers with a status code, a body text, the
  lines \<open>iter_lines\<close> yields and, when reading fails after them, the exception.
\<close>

datatype upstream =
    ConnectError exn
  | Response int pystr "pybytes list" "exn option"

text \<open>
  \<^verbatim>\<open>
  for raw_line in r.iter_lines(decode_unicode=False):
      if sent_done:
          break
      if raw_line:
          line = _safe_decode(raw_line).strip()
          buffer.append(line)
      else:
          for out in (flush_and_emit(buffer) or []):
              yield out
          buffer = []
  \<close>
  The result: the chunks yielded, the session after each call of \<open>flush_and_emit\<close>, and
  the exception that ends the loop, if one does.
\<close>

fun read_loop ::
  "runtime \<Rightarrow> deck \<Rightarrow> exn option \<Rightarrow> pybytes list \<Rightarrow> pystr list \<Rightarrow> session
     \<Rightarrow> pystr list \<times> session list \<times> exn option" where
  "read_loop rt dk ending [] buffer s = ([], [], ending)"
| "read_loop rt dk ending (raw_line # rest) buffer s =
     (if sent_done s then ([], [], None)
      else if raw_line \<noteq> [] then
        (case safe_decode raw_line of
           Inl e \<Rightarrow> ([], [], Some e)
         | Inr line \<Rightarrow> read_loop rt dk ending rest (buffer @ [py_strip line]) s)
      else
        (case flush_and_emit rt dk s buffer of
           Inl e \<Rightarrow> ([], [], Some e)
         | Inr (out, s') \<Rightarrow>
             (case read_loop rt dk ending rest [] s' of
                (out', tr, e) \<Rightarrow> (out @ out', s' # tr, e))))"

definition init_session :: session where
  "init_session = \<lparr>endpoint_url = None, called = False, session_context = [], sent_done = False,
                    posts = []\<rparr>"

text \<open>
  \<^verbatim>\<open>
  def event_stream():
      sent_done = False
      try:
          with requests.get(MCP_SSE, params=sse_params, headers=headers, stream=True, timeout=1200) as r:
              if r.status_code != 200:
                  err_msg = f"SSE connect failed: {r.text}"
                  yield f"event: error\ndata: {err_msg}\n\n"
                  yield "event: done\ndata: [DONE]\n\n"
                  return
              endpoint_url = None; called = False; context = {}; buffer = []
              ... the read loop ...
              if not sent_done:
                  yield "event: done\ndata: [DONE]\n\n"
                  sent_done = True
      except Exception as e:
          yield f"event: error\ndata: {str(e)}\n\n"
          if not sent_done:
              yield "event: done\ndata: [DONE]\n\n"
  \<close>
  \<open>run_session\<close> gives the chunks of the whole stream and the sessions the loop went
  through; \<open>event_stream\<close> is the chunks.
\<close>

definition run_session :: "runtime \<Rightarrow> deck \<Rightarrow> upstream \<Rightarrow> pystr list \<times> session list" where
  "run_session rt dk up =
     (case up of
        ConnectError e \<Rightarrow> ([error_event (str_exn rt e), done_literal], [])
      | Response status_code text lines ending \<Rightarrow>
          if status_code \<noteq> 200
          then ([error_event (lit ''SSE connect failed: '' @ text), done_literal], [])
          else (case read_loop rt dk ending lines [] init_session of
                  (out, tr, e) \<Rightarrow>
                    (let s = last (init_session # tr)
                     in (case e of
                           None \<Rightarrow> (out @ (if \<not> sent_done s then [done_literal] else []), tr)
                         | Some ex \<Rightarrow>
                             (out @ [error_event (str_exn rt ex)]
                              @ (if \<not> sent_done s then [done_literal] else []), tr)))))"

definition event_stream :: "runtime \<Rightarrow> deck \<Rightarrow> upstream \<Rightarrow> pystr list" where
  "event_stream rt dk up = fst (run_session rt dk up)"

text \<open>
  \<^verbatim>\<open>
  def make_deck_stream(req):
      if not SKY_ID or not SKY_KEY:
          raise HTTPException(500, "Server is not configured with SKYWORK_SECRET_ID/KEY")
      mode_to_tool = {"ppt":"gen_ppt", "ppt-fast":"gen_ppt_fast", "doc":"gen_doc", "excel":"gen_excel"}
      tool_name = mode_to_tool.get(req.mode, "gen_ppt_fast")
      export_ext = {"gen_ppt":"pptx", "gen_ppt_fast":"pptx", "gen_doc":"docx", "gen_excel":"xlsx"}[tool_name]
      query_text = build_query(req)
      sse_params = {..., "query": query_text, "use_network": str(req.use_network).lower(), ...}
      ...
      return StreamingResponse(event_stream(), media_type="text/event-stream")
  \<close>
\<close>

definition mode_to_tool :: "mode \<Rightarrow> pystr" where
  "mode_to_tool m =
     (case m of Ppt \<Rightarrow> lit ''gen_ppt'' | PptFast \<Rightarrow> lit ''gen_ppt_fast''
      | Doc \<Rightarrow> lit ''gen_doc'' | Excel \<Rightarrow> lit ''gen_excel'')"

definition tool_export_ext :: "mode \<Rightarrow> pystr" where
  "tool_export_ext m =
     (case m of Ppt \<Rightarrow> lit ''pptx'' | PptFast \<Rightarrow> lit ''pptx''
      | Doc \<Rightarrow> lit ''docx'' | Excel \<Rightarrow> lit ''xlsx'')"

definition deck_of :: "MakeDeckReq \<Rightarrow> deck" where
  "deck_of req =
     \<lparr>query_text = build_query req,
      use_network_param = (if use_network req then lit ''true'' else lit ''false''),
      tool_name = mode_to_tool (mode req),
      export_ext = tool_export_ext (mode req)\<rparr>"

datatype http_error = HTTPException int pystr

definition make_deck_stream ::
  "runtime \<Rightarrow> MakeDeckReq \<Rightarrow> upstream \<Rightarrow> http_error + pystr list" where
  "make_deck_stream rt req up =
     (if SKY_ID rt = [] \<or> SKY_KEY rt = []
      then Inl (HTTPException 500 (lit ''Server is not configured with SKYWORK_SECRET_ID/KEY''))
      else Inr (event_stream rt (deck_of req) up))"

section \<open>Notions used to state the properties\<close>

text \<open>A chunk is a \<open>done\<close> event when it opens with the line \<open>event: done\<close>.\<close>

definition is_done_event :: "pystr \<Rightarrow> bool" where
  "is_done_event c \<longleftrightarrow> py_startswith c (lit ''event: done\<newline>'')"

text \<open>The number of places where a flag goes from false to true along a list.\<close>

fun rises :: "bool list \<Rightarrow> nat" where
  "rises (a # b # bs) = (if \<not> a \<and> b then 1 else 0) + rises (b # bs)"
| "rises _ = 0"

text \<open>\<open>sep.join(parts)\<close>.\<close>

fun py_join :: "pystr \<Rightarrow> pystr list \<Rightarrow> pystr" where
  "py_join sep [] = []"
| "py_join sep [p] = p"
| "py_join sep (p # q # ps) = p @ sep @ py_join sep (q # ps)"

text \<open>The \<open>event:\<close> lines and the \<open>data:\<close> lines of a buffer.\<close>

definition event_lines :: "pystr list \<Rightarrow> pystr list" where
  "event_lines buf = filter (\<lambda>ln. py_startswith ln (lit ''event:'')) buf"

definition data_lines :: "pystr list \<Rightarrow> pystr list" where
  "data_lines buf = filter (\<lambda>ln. py_startswith ln (lit ''data:'')) buf"

text \<open>The name and the payload of the record a buffer holds, as the code assembles them.\<close>

definition record_name :: "pystr list \<Rightarrow> pystr" where
  "record_name buf = fst (parse_fields buf (lit ''message'') [])"

definition record_payload :: "pystr list \<Rightarrow> pystr" where
  "record_payload buf = py_strip (snd (parse_fields buf (lit ''message'') []))"

text \<open>
  The payload as the specification words it: of each \<open>data:\<close> line the text after the
  colon less exactly one leading space, joined by newlines, then trimmed.
\<close>

definition strip_one_space :: "pystr \<Rightarrow> pystr" where
  "strip_one_space x = (case x of c # r \<Rightarrow> if c = 32 then r else x | [] \<Rightarrow> [])"

definition spec_payload :: "pystr list \<Rightarrow> pystr" where
  "spec_payload buf = py_strip (py_join [10] (map (\<lambda>ln. strip_one_space (drop 5 ln)) (data_lines buf)))"

text \<open>The two keyword bonuses of \<open>_score_url\<close> and the bonus of the extension ranks.\<close>

definition keyword_bonus :: "runtime \<Rightarrow> pystr \<Rightarrow> int" where
  "keyword_bonus rt u =
     (let s = str_lower rt u
      in (if py_in (lit ''download'') s \<or> py_in (lit ''export'') s \<or> py_in (lit ''file'') s
          then 15 else 0)
         + (if py_in (lit ''signature='') s \<or> py_in (lit ''token='') s then 10 else 0))"

definition rank_bonus :: "runtime \<Rightarrow> pystr \<Rightarrow> int" where
  "rank_bonus rt u =
     (\<Sum>k\<leftarrow>[0..<length (PREFERRED_EXTS rt)].
        if py_endswith (str_lower rt u) (46 # PREFERRED_EXTS rt ! k) then 100 - (1 + int k) else 0)"

text \<open>The default preference order.\<close>

definition default_order :: "pystr list" where
  "default_order = [lit ''pptx'', lit ''docx'', lit ''xlsx'', lit ''pdf'', lit ''zip'']"

subsection \<open>A runtime and inputs for the worked examples\<close>

text \<open>
  \<open>example_runtime\<close> gives each library call the value the library has on the inputs of
  the examples below: \<open>json.loads\<close> parses the handshake object of the specification and
  raises on the other texts used (none of them is JSON), \<open>lower\<close> maps the ASCII capitals
  (every text lower-cased below is ASCII), \<open>urljoin\<close> puts an absolute path
  after an origin, \<open>parse_qs\<close> reads \<open>key=value\<close> pairs after the question mark,
  \<open>json.dumps\<close> writes an object of one string that needs no escape, \<open>list(set(_))\<close> keeps
  the first occurrences in order, and every \<open>requests.post\<close> is answered.
\<close>

definition ascii_lower :: "pystr \<Rightarrow> pystr" where
  "ascii_lower s = map (\<lambda>c. if 65 \<le> c \<and> c \<le> 90 then c + 32 else c) s"

definition handshake_json :: pystr where
  "handshake_json =
     [123, 34] @ lit ''endpoint'' @ [34, 58, 34] @ lit ''/open/message?sessionId=abc123'' @ [34, 125]"

definition example_json_loads :: "pystr \<Rightarrow> json option" where
  "example_json_loads s =
     (if s = handshake_json
      then Some (JObj [(lit ''endpoint'', JStr (lit ''/open/message?sessionId=abc123''))])
      else None)"

definition example_json_dumps :: "json \<Rightarrow> pystr" where
  "example_json_dumps v =
     (case v of
        JObj [(k, JStr x)] \<Rightarrow> [123, 34] @ k @ [34, 58, 32, 34] @ x @ [34, 125]
      | _ \<Rightarrow> [])"

definition example_url_query :: "pystr \<Rightarrow> (pystr \<times> pystr list) list option" where
  "example_url_query u =
     (case py_split1 63 u of
        [_, q] \<Rightarrow>
          Some (map (\<lambda>kv. case py_split1 61 kv of [k, v] \<Rightarrow> (k, [v]) | _ \<Rightarrow> (kv, []))
                    (py_split 38 q))
      | _ \<Rightarrow> Some [])"

definition example_str_exn :: "exn \<Rightarrow> pystr" where
  "example_str_exn e =
     (case e of Raised m \<Rightarrow> m | UnicodeDecodeError \<Rightarrow> lit ''UnicodeDecodeError''
      | AttributeError \<Rightarrow> lit ''AttributeError'' | TypeError \<Rightarrow> lit ''TypeError'')"

definition example_runtime :: runtime where
  "example_runtime =
     \<lparr>SKY_ID = lit ''id'', SKY_KEY = lit ''key'', DECKPILOT_PREFERRED_EXTS = None,
      str_lower = ascii_lower,
      md5_hexdigest = (\<lambda>x. lit ''d41d8cd98f00b204e9800998ecf8427e''),
      list_of_set = remdups,
      json_loads = example_json_loads,
      json_dumps = example_json_dumps,
      urljoin = (\<lambda>base rel. Inr (base @ rel)),
      url_query = example_url_query,
      format_value = (\<lambda>v. []),
      str_exn = example_str_exn,
      requests_post = (\<lambda>n url payload. None)\<rparr>"

definition example_deck :: deck where
  "example_deck =
     deck_of \<lparr>topic = lit ''AI'', template_hint = None, use_network = True, mode = PptFast,
              outline_md = None\<rparr>"

text \<open>The bytes of an ASCII line of the upstream.\<close>

definition ascii_bytes :: "string \<Rightarrow> pybytes" where
  "ascii_bytes s = map of_char s"

definition zip_download_url :: pystr where
  "zip_download_url = lit ''https://x.test/download/a.zip''"

definition plain_pptx_url :: pystr where
  "plain_pptx_url = lit ''https://x.test/a.pptx''"

text \<open>An upstream that sends two handshakes with different relative endpoints.\<close>

definition two_handshakes :: upstream where
  "two_handshakes =
     Response 200 []
       [ascii_bytes ''event: endpoint'', ascii_bytes ''data: /open/message?sessionId=abc123'', [],
        ascii_bytes ''event: endpoint'', ascii_bytes ''data: /open/message?sessionId=zzz'', []]
       None"

subsection \<open>Steps and traces of a session\<close>

text \<open>
  What one call of \<open>flush_and_emit\<close> from the session \<open>s\<close>, yielding \<open>out\<close> and leaving the
  session \<open>s'\<close>, is shown to do to the \<open>done\<close> events, the flag and the trigger calls.
\<close>

definition step_facts :: "runtime \<Rightarrow> deck \<Rightarrow> session \<Rightarrow> pystr list \<Rightarrow> session \<Rightarrow> bool" where
  "step_facts rt dk s out s' \<longleftrightarrow>
     (\<not> sent_done s \<longrightarrow> length (filter is_done_event out) = (if sent_done s' then 1 else 0)) \<and>
     (\<forall>c\<in>set out. is_done_event c \<longrightarrow> c = done_literal \<or> (\<exists>link. c = done_url rt link)) \<and>
     (called s \<longrightarrow> called s' \<and> posts s' = posts s) \<and>
     (posts s' = posts s \<and> called s' = called s \<or>
      \<not> called s \<and> opt_truthy (endpoint_url s') \<and> (called s' \<or> sent_done s') \<and>
      posts s' = posts s @ [(the (endpoint_url s'), trigger_payload rt dk (session_context s'))]) \<and>
     (sent_done s \<longrightarrow> out = [] \<and> s' = s)"

text \<open>\<open>along P s tr\<close>: every step of the trace \<open>tr\<close>, started in \<open>s\<close>, satisfies \<open>P\<close>.\<close>

fun along :: "(session \<Rightarrow> session \<Rightarrow> bool) \<Rightarrow> session \<Rightarrow> session list \<Rightarrow> bool" where
  "along P s [] \<longleftrightarrow> True"
| "along P s (s' # tr) \<longleftrightarrow> P s s' \<and> along P s' tr"

text \<open>
  A step makes no trigger call, or it makes the first one of the session, with the flag
  still false, to the endpoint URL it has just resolved.
\<close>

definition trigger_step :: "runtime \<Rightarrow> deck \<Rightarrow> session \<Rightarrow> session \<Rightarrow> bool" where
  "trigger_step rt dk s s' \<longleftrightarrow>
     posts s' = posts s \<or>
     \<not> called s \<and> posts s = [] \<and> opt_truthy (endpoint_url s') \<and>
     posts s' = [(the (endpoint_url s'), trigger_payload rt dk (session_context s'))]"

text \<open>No trigger call and the flag false, or one call and the flag set or the session done.\<close>

definition posts_inv :: "session \<Rightarrow> bool" where
  "posts_inv s \<longleftrightarrow> posts s = [] \<and> \<not> called s \<or> length (posts s) = 1 \<and> (called s \<or> sent_done s)"

text \<open>
  The records of an upstream: the buffers the read loop hands to \<open>flush_and_emit\<close> when it
  runs through all the lines (a buffer the lines end in is never handed over, and a line
  that fails to decode ends the loop).
\<close>

fun pending_records :: "pystr list \<Rightarrow> pybytes list \<Rightarrow> pystr list list" where
  "pending_records buffer [] = []"
| "pending_records buffer (raw_line # rest) =
     (if raw_line \<noteq> [] then
        (case safe_decode raw_line of
           Inl e \<Rightarrow> []
         | Inr line \<Rightarrow> pending_records (buffer @ [py_strip line]) rest)
      else buffer # pending_records [] rest)"

definition upstream_records :: "upstream \<Rightarrow> pystr list list" where
  "upstream_records up =
     (case up of ConnectError e \<Rightarrow> [] | Response status_code body lines ending \<Rightarrow> pending_records [] lines)"

text \<open>
  A record for which the trigger call is due: a handshake record that is processed (the
  session is not done, the payload is not empty, holds no URL and is no ping) while the
  flag is false, and whose payload resolves to an endpoint URL.
\<close>

definition post_due :: "runtime \<Rightarrow> session \<Rightarrow> pystr list \<Rightarrow> bool" where
  "post_due rt s buf \<longleftrightarrow>
     buf \<noteq> [] \<and> \<not> sent_done s \<and> record_payload buf \<noteq> [] \<and>
     \<not> opt_truthy (pick_best_url rt (collect_urls_from_text rt (record_payload buf))) \<and>
     \<not> is_ping (case json_loads rt (record_payload buf) of None \<Rightarrow> JNull | Some v \<Rightarrow> v) \<and>
     record_name buf = lit ''endpoint'' \<and> \<not> called s \<and>
     (case endpoint_and_context_from_data rt (record_payload buf) of
        Inl e \<Rightarrow> False
      | Inr (ep, ctx) \<Rightarrow> opt_truthy ep)"

text \<open>The field \<open>k\<close> of a JSON object.\<close>

definition json_field :: "json \<Rightarrow> pystr \<Rightarrow> json" where
  "json_field j k = (case j of JObj d \<Rightarrow> dict_get d k | _ \<Rightarrow> JNull)"

text \<open>
  What the step on the record \<open>buf\<close> from the session \<open>s\<close> to \<open>s'\<close> does about the trigger:
  when the call is due, one \<open>requests.post\<close> is added, of a \<open>tools/call\<close> body to the endpoint
  URL the record resolves, which becomes the session's, and the flag is set exactly when
  the call returns; when it is not due, no call is made and the flag stays.
\<close>

definition trigger_rule :: "runtime \<Rightarrow> deck \<Rightarrow> session \<Rightarrow> pystr list \<Rightarrow> session \<Rightarrow> bool" where
  "trigger_rule rt dk s buf s' \<longleftrightarrow>
     (if post_due rt s buf then
        (case endpoint_and_context_from_data rt (record_payload buf) of
           Inl e \<Rightarrow> False
         | Inr (ep, ctx) \<Rightarrow>
             (case ep of
                None \<Rightarrow> False
              | Some url \<Rightarrow>
                  endpoint_url s' = Some url \<and>
                  posts s' = posts s @ [(url, trigger_payload rt dk (session_context s'))] \<and>
                  json_field (trigger_payload rt dk (session_context s')) (lit ''method'')
                    = JStr (lit ''tools/call'') \<and>
                  (called s' \<longleftrightarrow>
                     requests_post rt (length (posts s)) url
                       (trigger_payload rt dk (session_context s')) = None)))
      else posts s' = posts s \<and> called s' = called s)"

text \<open>
  \<open>along_records P s recs tr\<close>: the trace \<open>tr\<close>, started in \<open>s\<close>, takes one step for each of
  the first records of \<open>recs\<close>, and every step satisfies \<open>P\<close>.
\<close>

fun along_records ::
  "(session \<Rightarrow> pystr list \<Rightarrow> session \<Rightarrow> bool) \<Rightarrow> session \<Rightarrow> pystr list list \<Rightarrow> session list
     \<Rightarrow> bool" where
  "along_records P s recs [] \<longleftrightarrow> True"
| "along_records P s [] (s' # tr) \<longleftrightarrow> False"
| "along_records P s (r # recs) (s' # tr) \<longleftrightarrow> P s r s' \<and> along_records P s' recs tr"

subsection \<open>The stream as a client reads it\<close>

text \<open>
  The text of all chunks, cut into lines at the newlines and into records at the empty
  lines (lines after the last empty line are no record); the \<open>done\<close> events are the
  records whose event name, read as the relay reads its own upstream, is \<open>done\<close>.
\<close>

fun wire_records :: "pystr list \<Rightarrow> pystr list \<Rightarrow> pystr list list" where
  "wire_records cur [] = []"
| "wire_records cur (ln # lns) =
     (if ln = [] then (if cur = [] then wire_records [] lns else cur # wire_records [] lns)
      else wire_records (cur @ [ln]) lns)"

definition stream_records :: "pystr list \<Rightarrow> pystr list list" where
  "stream_records chunks = wire_records [] (py_split 10 (concat chunks))"

definition done_events_read :: "pystr list \<Rightarrow> pystr list list" where
  "done_events_read chunks = filter (\<lambda>r. record_name r = lit ''done'') (stream_records chunks)"

text \<open>
  An upstream whose one record has four \<open>data:\<close> lines, the second empty, the third and
  fourth spelling a \<open>done\<close> event.
\<close>

definition smuggled_done :: upstream where
  "smuggled_done =
     Response 200 []
       [ascii_bytes ''data: x'', ascii_bytes ''data:'', ascii_bytes ''data: event: done'',
        ascii_bytes ''data: data: [DONE]'', []]
       None"

definition smuggled_record :: "pystr list" where
  "smuggled_record = [lit ''data: x'', lit ''data:'', lit ''data: event: done'', lit ''data: data: [DONE]'']"

subsection \<open>The session with two handshakes\<close>

definition first_endpoint :: pystr where
  "first_endpoint = lit ''https://api.skywork.ai/open/message?sessionId=abc123''"

definition second_endpoint :: pystr where
  "second_endpoint = lit ''https://api.skywork.ai/open/message?sessionId=zzz''"

definition after_first_handshake :: session where
  "after_first_handshake =
     \<lparr>endpoint_url = Some first_endpoint, called = True,
      session_context = [(lit ''sessionId'', JStr (lit ''abc123''))], sent_done = False,
      posts = [(first_endpoint,
                trigger_payload example_runtime example_deck
                  [(lit ''sessionId'', JStr (lit ''abc123''))])]\<rparr>"

definition after_second_handshake :: session where
  "after_second_handshake =
     after_first_handshake
       \<lparr>endpoint_url := Some second_endpoint,
        session_context := [(lit ''sessionId'', JStr (lit ''zzz''))]\<rparr>"

definition first_handshake_record :: "pystr list" where
  "first_handshake_record = [lit ''event: endpoint'', lit ''data: /open/message?sessionId=abc123'']"

definition second_handshake_record :: "pystr list" where
  "second_handshake_record = [lit ''event: endpoint'', lit ''data: /open/message?sessionId=zzz'']"

section \<open>Properties of the query text, the decoder and the URL scorer\<close>

lemmas text_defs = lit_def py_startswith_def py_strip_def py_lstrip_def py_rstrip_def
  py_isspace_def

lemma example_lower: "str_lower example_runtime s = ascii_lower s"
  by (simp add: example_runtime_def)
lemmas url_defs = url_match_def scheme_len_def is_http_def url_char_def

text \<open>
  Claim C10. Two requests that differ only in \<open>mode\<close> give the same query text, and so
  do two requests with the same \<open>topic\<close>, \<open>template_hint\<close> and \<open>outline_md\<close>: every entry of
  \<open>mode_desc\<close> is the same template.
\<close>

theorem build_query_ignores_mode:
  "build_query (req\<lparr>mode := ma\<rparr>) = build_query (req\<lparr>mode := mb\<rparr>) \<and>
   (topic ra = topic rb \<and> template_hint ra = template_hint rb \<and> outline_md ra = outline_md rb
      \<longrightarrow> build_query ra = build_query rb)"
  by (simp add: build_query_def mode_desc_def split: mode.splits)

theorem build_query_ignores_mode_witness:
  "build_query \<lparr>topic = lit ''AI'', template_hint = None, use_network = True, mode = Doc,
                 outline_md = None\<rparr>
   = build_query \<lparr>topic = lit ''AI'', template_hint = None, use_network = True, mode = Excel,
                   outline_md = None\<rparr>"
  using build_query_ignores_mode
    [where ra = "\<lparr>topic = lit ''AI'', template_hint = None, use_network = True, mode = Doc,
                   outline_md = None\<rparr>"
       and rb = "\<lparr>topic = lit ''AI'', template_hint = None, use_network = True, mode = Excel,
                   outline_md = None\<rparr>"]
  by simp

lemma utf8_decode_Ignore_total: "\<exists>s. utf8_decode Ignore bs = Inr s"
proof (induction Ignore bs rule: utf8_decode.induct)
  case 1
  then show ?case by simp
next
  case (2 b0 bs)
  show ?case
  proof (cases "utf8_step b0 bs")
    case (Decoded c k)
    with 2(1) obtain s where "utf8_decode Ignore (drop k bs) = Inr s" by blast
    with Decoded show ?thesis by simp
  next
    case (Invalid k)
    with 2(2) obtain s where "utf8_decode Ignore (drop k bs) = Inr s" by blast
    with Invalid show ?thesis by simp
  qed
qed

lemma utf8_decode_Strict_error: "utf8_decode Strict bs = Inl e \<Longrightarrow> e = UnicodeDecodeError"
proof (induction Strict bs rule: utf8_decode.induct)
  case 1
  then show ?case by simp
next
  case (2 b0 bs)
  then show ?case
    by (cases "utf8_step b0 bs") (auto split: sum.splits)
qed

text \<open>
  Claim C9. \<open>_safe_decode\<close> returns a text for every byte sequence and never raises: the
  text is the strict UTF-8 decoding when that succeeds; when it raises
  \<open>UnicodeDecodeError\<close> the text is the UTF-8 decoding that ignores the invalid
  sequences. That second decoding never fails, so the latin-1 branch behind it is never
  needed; latin-1 decodes every byte sequence, byte by byte.
\<close>

theorem safe_decode_never_raises:
  "\<exists>s. safe_decode b = Inr s \<and>
       (bytes_decode UTF8 Strict b = Inr s \<or>
        (bytes_decode UTF8 Strict b = Inl UnicodeDecodeError \<and> bytes_decode UTF8 Ignore b = Inr s)) \<and>
       bytes_decode Latin1 Ignore b = Inr (map unat b)"
proof (cases "bytes_decode UTF8 Strict b")
  case (Inl e)
  then have e: "e = UnicodeDecodeError"
    by (simp add: bytes_decode_def utf8_decode_Strict_error)
  obtain s where s: "bytes_decode UTF8 Ignore b = Inr s"
    using utf8_decode_Ignore_total [of "map unat b"] by (auto simp: bytes_decode_def)
  with Inl e show ?thesis by (simp add: safe_decode_def) (simp add: bytes_decode_def)
next
  case (Inr s)
  then show ?thesis by (simp add: safe_decode_def) (simp add: bytes_decode_def)
qed

theorem safe_decode_never_raises_witness:
  "safe_decode [0xE4, 0xB8, 0xAD, 0x41] = Inr [20013, 65] \<and>
   safe_decode [0xE4, 0xB8, 0x41] = Inr [65]"
  using safe_decode_never_raises [of "[0xE4, 0xB8, 0xAD, 0x41]"]
    safe_decode_never_raises [of "[0xE4, 0xB8, 0x41]"]
  by (simp add: safe_decode_def bytes_decode_def is_continuation_def)

lemma ext_loop_sum:
  "ext_loop s exts i sc =
     sc + (\<Sum>k\<leftarrow>[0..<length exts]. if py_endswith s (46 # exts ! k) then 100 - (i + int k) else 0)"
proof (induction exts arbitrary: i sc)
  case Nil
  then show ?case by simp
next
  case (Cons ext exts)
  have shift: "[0..<Suc (length exts)] = 0 # map Suc [0..<length exts]"
    by (simp add: upt_conv_Cons map_Suc_upt del: upt_Suc)
  show ?case
    by (simp add: Cons.IH shift comp_def algebra_simps del: upt_Suc cong: if_cong)
qed

lemma score_url_formula: "score_url rt u = 10 + rank_bonus rt u + keyword_bonus rt u"
  by (simp add: score_url_def rank_bonus_def keyword_bonus_def Let_def ext_loop_sum algebra_simps
      cong: if_cong)

lemma example_exts: "PREFERRED_EXTS example_runtime = default_order"
  by (simp add: PREFERRED_EXTS_def example_lower default_order_def)
     (simp add: example_runtime_def ascii_lower_def lit_def)

lemma endswith_both:
  assumes "py_endswith s p" "py_endswith s q" "length q \<le> length p"
  shows "py_endswith p q"
proof -
  from assms(1) have p: "p = drop (length s - length p) s" and lp: "length p \<le> length s"
    by (simp_all add: py_endswith_def)
  from assms(2) have q: "q = drop (length s - length q) s" and lq: "length q \<le> length s"
    by (simp_all add: py_endswith_def)
  have "drop (length p - length q) p = drop (length p - length q) (drop (length s - length p) s)"
    using p by simp
  also have "\<dots> = drop (length s - length q) s"
    using lp lq assms(3) by simp
  finally show ?thesis using q assms(3) by (simp add: py_endswith_def)
qed

lemma rank_bonus_pptx:
  assumes ord: "PREFERRED_EXTS rt = default_order"
      and e: "py_endswith (str_lower rt u) (lit ''.pptx'')"
  shows "rank_bonus rt u = 99"
proof -
  have a: "\<not> py_endswith (str_lower rt u) (lit ''.docx'')"
    using endswith_both [OF e, of "lit ''.docx''"] by (auto simp: py_endswith_def lit_def)
  have b: "\<not> py_endswith (str_lower rt u) (lit ''.xlsx'')"
    using endswith_both [OF e, of "lit ''.xlsx''"] by (auto simp: py_endswith_def lit_def)
  have c: "\<not> py_endswith (str_lower rt u) (lit ''.pdf'')"
    using endswith_both [OF e, of "lit ''.pdf''"] by (auto simp: py_endswith_def lit_def)
  have d: "\<not> py_endswith (str_lower rt u) (lit ''.zip'')"
    using endswith_both [OF e, of "lit ''.zip''"] by (auto simp: py_endswith_def lit_def)
  have up: "[0..<5] = [0, 1, 2, 3, 4::nat]" by (simp add: upt_rec)
  from e a b c d show ?thesis
    by (simp add: rank_bonus_def ord default_order_def up) (simp add: lit_def)
qed

lemma rank_bonus_zip:
  assumes ord: "PREFERRED_EXTS rt = default_order"
      and e: "py_endswith (str_lower rt u) (lit ''.zip'')"
  shows "rank_bonus rt u = 95"
proof -
  have a: "\<not> py_endswith (str_lower rt u) (lit ''.docx'')"
    using endswith_both [OF _ e, of "lit ''.docx''"] by (auto simp: py_endswith_def lit_def)
  have b: "\<not> py_endswith (str_lower rt u) (lit ''.xlsx'')"
    using endswith_both [OF _ e, of "lit ''.xlsx''"] by (auto simp: py_endswith_def lit_def)
  have c: "\<not> py_endswith (str_lower rt u) (lit ''.pdf'')"
    using endswith_both [OF e, of "lit ''.pdf''"] by (auto simp: py_endswith_def lit_def)
  have d: "\<not> py_endswith (str_lower rt u) (lit ''.pptx'')"
    using endswith_both [OF _ e, of "lit ''.pptx''"] by (auto simp: py_endswith_def lit_def)
  have up: "[0..<5] = [0, 1, 2, 3, 4::nat]" by (simp add: upt_rec)
  from e a b c d show ?thesis
    by (simp add: rank_bonus_def ord default_order_def up) (simp add: lit_def)
qed

lemma pick_two:
  assumes "f b < f a"
  shows "hd (sorted_reverse f [a, b]) = a" "hd (sorted_reverse f [b, a]) = a"
  using assms by (simp_all add: sorted_reverse_def)

lemma kw_eval:
  "keyword_bonus example_runtime (lit ''https://x.test/a.pptx'') = 0"
  "keyword_bonus example_runtime (lit ''https://x.test/b.zip'') = 0"
  "keyword_bonus example_runtime (lit ''https://x.test/download/a.zip'') = 15"
  "keyword_bonus example_runtime (lit ''https://x.test/out.pptx?signature=abc'') = 10"
  by (simp_all add: keyword_bonus_def Let_def example_lower ascii_lower_def text_defs)

lemma ends_eval:
  "py_endswith (str_lower example_runtime (lit ''https://x.test/a.pptx'')) (lit ''.pptx'')"
  "py_endswith (str_lower example_runtime (lit ''https://x.test/b.zip'')) (lit ''.zip'')"
  "py_endswith (str_lower example_runtime (lit ''https://x.test/download/a.zip'')) (lit ''.zip'')"
  by (simp_all add: py_endswith_def example_lower ascii_lower_def text_defs)

lemma rank_eval:
  "rank_bonus example_runtime (lit ''https://x.test/out.pptx?signature=abc'') = 0"
proof -
  have up: "[0..<5] = [0, 1, 2, 3, 4::nat]" by (simp add: upt_rec)
  show ?thesis
    by (simp add: rank_bonus_def example_exts default_order_def up)
       (simp add: py_endswith_def example_lower ascii_lower_def text_defs)
qed

text \<open>
  Claim C7, as amended. For every URL, \<open>_score_url\<close> is 10, plus \<open>100 - rank\<close> for each
  rank (from 1) of the configured preference list whose extension, after a dot, ends the
  lower-cased URL, plus 15 for \<open>download\<close>, \<open>export\<close> or \<open>file\<close>, plus 10 for
  \<open>signature=\<close> or \<open>token=\<close>, both looked for in the lower-cased URL (\<open>u.lower()\<close>, as the
  runtime computes it). Under the default order, of a URL whose lower-casing ends in
  \<open>.pptx\<close> and one whose lower-casing ends in \<open>.zip\<close>, \<open>_pick_best_url\<close> returns the \<open>.pptx\<close>
  one, in either order of the list, whenever the keyword bonuses of the \<open>.zip\<close> URL do not
  exceed those of the \<open>.pptx\<close> URL.
\<close>

theorem score_url_formula_and_pptx_over_zip:
  "score_url rt u = 10 + rank_bonus rt u + keyword_bonus rt u \<and>
   (PREFERRED_EXTS rt = default_order \<and>
    py_endswith (str_lower rt a) (lit ''.pptx'') \<and> py_endswith (str_lower rt b) (lit ''.zip'')
      \<and> keyword_bonus rt b \<le> keyword_bonus rt a \<longrightarrow>
    pick_best_url rt [a, b] = Some a \<and> pick_best_url rt [b, a] = Some a)"
proof (intro conjI impI)
  show "score_url rt u = 10 + rank_bonus rt u + keyword_bonus rt u"
    by (rule score_url_formula)
next
  assume h: "PREFERRED_EXTS rt = default_order \<and>
    py_endswith (str_lower rt a) (lit ''.pptx'') \<and> py_endswith (str_lower rt b) (lit ''.zip'')
      \<and> keyword_bonus rt b \<le> keyword_bonus rt a"
  then have "score_url rt b < score_url rt a"
    by (simp add: score_url_formula rank_bonus_pptx rank_bonus_zip)
  then show "pick_best_url rt [a, b] = Some a" and "pick_best_url rt [b, a] = Some a"
    by (simp_all add: pick_best_url_def pick_two)
qed

theorem score_url_formula_and_pptx_over_zip_witness:
  "PREFERRED_EXTS example_runtime = default_order \<and>
   score_url example_runtime (lit ''https://x.test/out.pptx?signature=abc'') = 20 \<and>
   pick_best_url example_runtime [lit ''https://x.test/a.pptx'', lit ''https://x.test/b.zip'']
     = Some (lit ''https://x.test/a.pptx'')"
  using score_url_formula_and_pptx_over_zip
    [of example_runtime "lit ''https://x.test/out.pptx?signature=abc''"
        "lit ''https://x.test/a.pptx''" "lit ''https://x.test/b.zip''"]
  by (simp add: kw_eval ends_eval rank_eval example_exts)

text \<open>
  The claim as stated fails: a \<open>.zip\<close> URL with \<open>download\<close> in it scores 120, a plain
  \<open>.pptx\<close> URL 109, and the \<open>.zip\<close> URL is returned in either order of the list.
\<close>

theorem pptx_over_zip_counterexample:
  "PREFERRED_EXTS example_runtime = default_order \<and>
   py_endswith zip_download_url (lit ''.zip'') \<and> py_endswith plain_pptx_url (lit ''.pptx'') \<and>
   score_url example_runtime zip_download_url = 120 \<and>
   score_url example_runtime plain_pptx_url = 109 \<and>
   pick_best_url example_runtime [zip_download_url, plain_pptx_url] = Some zip_download_url \<and>
   pick_best_url example_runtime [plain_pptx_url, zip_download_url] = Some zip_download_url"
proof -
  have z: "score_url example_runtime zip_download_url = 120"
    unfolding zip_download_url_def
    by (simp add: score_url_formula rank_bonus_zip example_exts ends_eval kw_eval)
  have p: "score_url example_runtime plain_pptx_url = 109"
    unfolding plain_pptx_url_def
    by (simp add: score_url_formula rank_bonus_pptx example_exts ends_eval kw_eval)
  have lt: "score_url example_runtime plain_pptx_url < score_url example_runtime zip_download_url"
    by (simp add: z p)
  have e: "py_endswith zip_download_url (lit ''.zip'')" "py_endswith plain_pptx_url (lit ''.pptx'')"
    by (simp_all add: zip_download_url_def plain_pptx_url_def py_endswith_def lit_def)
  from pick_two [of "score_url example_runtime" plain_pptx_url zip_download_url] lt e z p
  show ?thesis by (simp add: pick_best_url_def example_exts)
qed

section \<open>Properties of the handshake payload\<close>

text \<open>
  Claim C8. On the handshake payload \<open>{"endpoint":"/open/message?sessionId=abc123"}\<close>,
  \<open>_endpoint_and_context_from_data\<close> returns the endpoint
  \<open>https://api.skywork.ai/open/message?sessionId=abc123\<close> and the context
  \<open>{sessionId: "abc123"}\<close>, for every runtime whose \<open>json.loads\<close>, \<open>urljoin\<close> and
  \<open>parse_qs\<close> give on these texts what the library gives. The code joins the relative
  path to the origin \<open>https://api.skywork.ai\<close> and takes \<open>sessionId\<close> from the query.
\<close>

theorem handshake_example:
  assumes "json_loads rt handshake_json
             = Some (JObj [(lit ''endpoint'', JStr (lit ''/open/message?sessionId=abc123''))])"
      and "urljoin rt (lit ''https://api.skywork.ai'') (lit ''/open/message?sessionId=abc123'')
             = Inr (lit ''https://api.skywork.ai/open/message?sessionId=abc123'')"
      and "url_query rt (lit ''https://api.skywork.ai/open/message?sessionId=abc123'')
             = Some [(lit ''sessionId'', [lit ''abc123''])]"
  shows "endpoint_and_context_from_data rt handshake_json
           = Inr (Some (lit ''https://api.skywork.ai/open/message?sessionId=abc123''),
                  [(lit ''sessionId'', JStr (lit ''abc123''))])"
proof -
  have st: "py_startswith handshake_json (lit ''{'')"
    by (simp add: handshake_json_def py_startswith_def lit_def)
  have mf: "meta_fields rt handshake_json = (JStr (lit ''/open/message?sessionId=abc123''), [])"
    using assms(1) st
    by (simp add: meta_fields_def dict_get_def py_or_def meta_keys_def) (simp add: lit_def)
  have sl: "py_startswith (lit ''/open/message?sessionId=abc123'') (lit ''/'')"
    by (simp add: py_startswith_def lit_def)
  have tr: "truthy (JStr (lit ''/open/message?sessionId=abc123''))"
    by (simp add: lit_def)
  show ?thesis
    using assms(2,3) sl tr
    by (simp add: endpoint_and_context_from_data_def mf query_keys_def del: truthy.simps)
qed

theorem handshake_example_witness:
  "endpoint_and_context_from_data example_runtime handshake_json
     = Inr (Some (lit ''https://api.skywork.ai/open/message?sessionId=abc123''),
            [(lit ''sessionId'', JStr (lit ''abc123''))])"
proof -
  have a: "json_loads example_runtime handshake_json
             = Some (JObj [(lit ''endpoint'', JStr (lit ''/open/message?sessionId=abc123''))])"
    by (simp add: example_runtime_def example_json_loads_def)
  have b: "urljoin example_runtime (lit ''https://api.skywork.ai'') (lit ''/open/message?sessionId=abc123'')
             = Inr (lit ''https://api.skywork.ai/open/message?sessionId=abc123'')"
    by (simp add: example_runtime_def lit_def)
  have c: "url_query example_runtime (lit ''https://api.skywork.ai/open/message?sessionId=abc123'')
             = Some [(lit ''sessionId'', [lit ''abc123''])]"
    by (simp add: example_runtime_def example_url_query_def py_split1_def lit_def)
  show ?thesis by (rule handshake_example [OF a b c])
qed

section \<open>Properties of one record\<close>

lemma split1_after_prefix:
  assumes "py_startswith ln (p @ [58])" "58 \<notin> set p" "Suc (length p) = n"
  shows "py_split1 58 ln ! 1 = drop n ln"
proof -
  from assms(1,3) have "take n ln = p @ [58]"
    by (auto simp: py_startswith_def)
  then have ln: "ln = (p @ [58]) @ drop n ln"
    by (metis append_take_drop_id)
  have in58: "58 \<in> set ln" by (subst ln) simp
  have "\<forall>x\<in>set p. x \<noteq> 58" using assms(2) by auto
  then have "dropWhile (\<lambda>c. c \<noteq> 58) ((p @ [58]) @ drop n ln) = 58 # drop n ln"
    by (simp add: dropWhile_append3)
  with ln have "dropWhile (\<lambda>c. c \<noteq> 58) ln = 58 # drop n ln" by simp
  with in58 show ?thesis by (simp add: py_split1_def)
qed

lemma split1_event: "py_startswith ln (lit ''event:'') \<Longrightarrow> py_split1 58 ln ! Suc 0 = drop 6 ln"
  using split1_after_prefix [of ln "lit ''event''" 6] by (simp add: lit_def)

lemma split1_data: "py_startswith ln (lit ''data:'') \<Longrightarrow> py_split1 58 ln ! Suc 0 = drop 5 ln"
  using split1_after_prefix [of ln "lit ''data''" 5] by (simp add: lit_def)

lemma not_event_and_data:
  "py_startswith ln (lit ''event:'') \<Longrightarrow> \<not> py_startswith ln (lit ''data:'')"
  by (cases ln) (auto simp: py_startswith_def lit_def)

lemma parse_fields_eq:
  "parse_fields buf n d =
     (if event_lines buf = [] then n else py_strip (drop 6 (last (event_lines buf))),
      d @ concat (map (\<lambda>ln. py_lstrip (drop 5 ln) @ [10]) (data_lines buf)))"
proof (induction buf arbitrary: n d)
  case Nil
  then show ?case by (simp add: event_lines_def data_lines_def)
next
  case (Cons ln buf)
  show ?case
  proof (cases "py_startswith ln (lit ''event:'')")
    case True
    then show ?thesis
      using not_event_and_data [OF True]
      by (simp add: Cons.IH split1_event event_lines_def data_lines_def)
  next
    case False
    then show ?thesis
      by (simp add: Cons.IH split1_data event_lines_def data_lines_def)
  qed
qed

lemma concat_newlines:
  "ps \<noteq> [] \<Longrightarrow> concat (map (\<lambda>p. p @ [10]) ps) = py_join [10] ps @ [10]"
  by (induction "[10::nat]" ps rule: py_join.induct) simp_all

lemma strip_newline: "py_strip (x @ [10]) = py_strip x"
  by (simp add: py_strip_def py_rstrip_def py_isspace_def)

lemma strip_Nil: "py_strip [] = []"
  by (simp add: py_strip_def py_rstrip_def py_lstrip_def)

lemma record_payload_join:
  "record_payload buf = py_strip (py_join [10] (map (\<lambda>ln. py_lstrip (drop 5 ln)) (data_lines buf)))"
proof (cases "data_lines buf = []")
  case True
  then show ?thesis by (simp add: record_payload_def parse_fields_eq)
next
  case False
  then have "concat (map (\<lambda>ln. py_lstrip (drop 5 ln) @ [10]) (data_lines buf))
               = py_join [10] (map (\<lambda>ln. py_lstrip (drop 5 ln)) (data_lines buf)) @ [10]"
    using concat_newlines [of "map (\<lambda>ln. py_lstrip (drop 5 ln)) (data_lines buf)"]
    by (simp add: comp_def)
  then show ?thesis by (simp add: record_payload_def parse_fields_eq strip_newline)
qed

text \<open>
  Claim C3, as amended. The record name is the trimmed text after the colon of the last
  \<open>event:\<close> line, \<open>message\<close> when there is none. The payload is the texts after the colon
  of the \<open>data:\<close> lines, each without all of its leading whitespace, joined by newlines,
  the whole then trimmed. A record whose payload is empty yields no chunk and leaves the
  session as it is.
\<close>

theorem record_assembly:
  "record_name buf
     = (if event_lines buf = [] then lit ''message''
        else py_strip (drop 6 (last (event_lines buf)))) \<and>
   record_payload buf
     = py_strip (py_join [10] (map (\<lambda>ln. py_lstrip (drop 5 ln)) (data_lines buf))) \<and>
   (record_payload buf = [] \<longrightarrow> flush_and_emit rt dk s buf = Inr ([], s))"
proof (intro conjI impI)
  show "record_name buf
     = (if event_lines buf = [] then lit ''message''
        else py_strip (drop 6 (last (event_lines buf))))"
    by (simp add: record_name_def parse_fields_eq)
  show "record_payload buf
     = py_strip (py_join [10] (map (\<lambda>ln. py_lstrip (drop 5 ln)) (data_lines buf)))"
    by (rule record_payload_join)
  assume "record_payload buf = []"
  then show "flush_and_emit rt dk s buf = Inr ([], s)"
    by (auto simp: flush_and_emit_def record_payload_def Let_def split: prod.splits)
qed

lemma flush_and_emit_record:
  assumes "buf \<noteq> []" "\<not> sent_done s" "record_payload buf \<noteq> []"
  shows "flush_and_emit rt dk s buf =
     (let best_link = pick_best_url rt
                        (collect_urls_from_text rt (record_payload buf))
      in if opt_truthy best_link
         then Inr ([done_url rt (py_replace escaped_amp (lit ''&'') (the best_link)), eof_marker],
                   s\<lparr>sent_done := True\<rparr>)
         else handle_record rt dk s (record_name buf) (record_payload buf))"
  using assms
  by (auto simp: flush_and_emit_def record_payload_def record_name_def Let_def split: prod.splits)

lemma url_match_nonempty: "url_match s = Some m \<Longrightarrow> m \<noteq> []"
  by (auto simp: url_match_def Let_def split: option.splits if_splits)

lemma findall_nonempty: "m \<in> set (URL_RE_findall s) \<Longrightarrow> m \<noteq> []"
proof (induction s rule: URL_RE_findall.induct)
  case 1
  then show ?case by simp
next
  case (2 c cs)
  then show ?case
    by (cases "url_match (c # cs)") (auto dest: url_match_nonempty)
qed

lemma sorted_le_last: "sorted ys \<Longrightarrow> x \<in> set ys \<Longrightarrow> x \<le> last (ys :: int list)"
  by (induction ys) auto

lemma sorted_reverse_hd:
  assumes "xs \<noteq> []"
  shows "hd (sorted_reverse f xs) \<in> set xs \<and> (\<forall>u\<in>set xs. f u \<le> f (hd (sorted_reverse f xs)))"
proof -
  let ?ys = "sort_key f (rev xs)"
  have ne: "?ys \<noteq> []" using assms by (metis length_sort length_rev length_0_conv)
  then have hd: "hd (sorted_reverse f xs) = last ?ys"
    by (simp add: sorted_reverse_def hd_rev)
  have "last ?ys \<in> set ?ys" using ne by (rule last_in_set)
  then have mem: "last ?ys \<in> set xs" by simp
  have srt: "sorted (map f ?ys)" by (rule sorted_sort_key)
  have "\<forall>u\<in>set xs. f u \<le> f (last ?ys)"
  proof
    fix u assume "u \<in> set xs"
    then have "f u \<in> set (map f ?ys)" by simp
    then have "f u \<le> last (map f ?ys)" using srt by (simp add: sorted_le_last)
    then show "f u \<le> f (last ?ys)" using ne by (simp add: last_map)
  qed
  with hd mem show ?thesis by simp
qed

lemma pick_best_url_max:
  assumes "urls \<noteq> []"
  shows "\<exists>b. pick_best_url rt urls = Some b \<and> b \<in> set urls \<and>
             (\<forall>u\<in>set urls. score_url rt u \<le> score_url rt b)"
  using assms sorted_reverse_hd [of urls "score_url rt"] by (simp add: pick_best_url_def)

lemma startswith_Cons:
  "py_startswith (c # cs) (x # w) \<longleftrightarrow> c = x \<and> py_startswith cs w"
  "\<not> py_startswith [] (x # w)"
  by (auto simp: py_startswith_def)

lemma replace_amp_head:
  "py_replace escaped_amp new (escaped_amp @ y) = new @ py_replace escaped_amp new y"
  by (simp add: escaped_amp_def lit_def py_startswith_def)

lemma replace_amp_prefix:
  "92 \<notin> set x \<Longrightarrow> py_replace escaped_amp new (x @ s) = x @ py_replace escaped_amp new s"
  by (induction x) (auto simp: escaped_amp_def startswith_Cons)

lemma replace_amp_id: "\<not> py_in escaped_amp s \<Longrightarrow> py_replace escaped_amp new s = s"
  by (induction s) auto

lemma replace_amp_startswith:
  assumes "38 \<notin> set w" and "92 \<notin> set w"
  shows "py_startswith (py_replace escaped_amp [38] s) w \<Longrightarrow> py_startswith s w"
  using assms
proof (induction w arbitrary: s)
  case Nil
  then show ?case by (simp add: py_startswith_def)
next
  case (Cons x w)
  show ?case
  proof (cases s)
    case Nil
    with Cons.prems(1) show ?thesis by (simp add: startswith_Cons)
  next
    case (Cons c cs)
    show ?thesis
    proof (cases "py_startswith (c # cs) escaped_amp")
      case True
      then have "py_replace escaped_amp [38] s
                   = 38 # py_replace escaped_amp [38] (drop (length escaped_amp - 1) cs)"
        using Cons by (simp add: escaped_amp_def)
      with Cons.prems(1,2) show ?thesis by (simp add: startswith_Cons)
    next
      case False
      then have "py_replace escaped_amp [38] s = c # py_replace escaped_amp [38] cs"
        using Cons by simp
      with Cons.prems(1) have "c = x" and "py_startswith (py_replace escaped_amp [38] cs) w"
        by (simp_all add: startswith_Cons)
      with Cons.IH [of cs] Cons.prems(2,3) \<open>s = c # cs\<close> show ?thesis
        by (simp add: startswith_Cons)
    qed
  qed
qed

lemma replace_amp_gone: "\<not> py_in escaped_amp (py_replace escaped_amp [38] s)"
proof (induction s rule: length_induct)
  case (1 s)
  show ?case
  proof (cases s)
    case Nil
    then show ?thesis by (simp add: escaped_amp_def)
  next
    case (Cons c cs)
    show ?thesis
    proof (cases "py_startswith (c # cs) escaped_amp")
      case True
      then have r: "py_replace escaped_amp [38] s
                      = 38 # py_replace escaped_amp [38] (drop (length escaped_amp - 1) cs)"
        using Cons by (simp add: escaped_amp_def)
      have "length (drop (length escaped_amp - 1) cs) < length s" using Cons by simp
      with 1 have "\<not> py_in escaped_amp
                      (py_replace escaped_amp [38] (drop (length escaped_amp - 1) cs))" by blast
      then show ?thesis by (simp only: r py_in.simps) (simp add: escaped_amp_def startswith_Cons)
    next
      case False
      then have r: "py_replace escaped_amp [38] s = c # py_replace escaped_amp [38] cs"
        using Cons by simp
      have ih: "\<not> py_in escaped_amp (py_replace escaped_amp [38] cs)"
        using 1 Cons by simp
      have "\<not> py_startswith (c # py_replace escaped_amp [38] cs) escaped_amp"
      proof
        assume st: "py_startswith (c # py_replace escaped_amp [38] cs) escaped_amp"
        then have c: "c = 92" and w: "py_startswith (py_replace escaped_amp [38] cs) (lit ''u0026'')"
          by (simp_all add: escaped_amp_def startswith_Cons)
        have "py_startswith cs (lit ''u0026'')"
          by (rule replace_amp_startswith [OF _ _ w]) (simp_all add: lit_def)
        with c have "py_startswith (c # cs) escaped_amp"
          by (simp add: escaped_amp_def startswith_Cons)
        with False show False by simp
      qed
      with ih show ?thesis by (simp add: r)
    qed
  qed
qed

text \<open>
  Claim C4. In a session that is not done, a record whose payload holds a URL, whatever
  its event name and whatever else the payload is (a ping, a handshake, a token message),
  yields exactly two chunks and the session is done. The first is the \<open>done\<close> event whose
  data is the JSON text of the object \<open>{"download_url": link}\<close>, the second the end-of-file
  marker. \<open>link\<close> is a URL of the payload of greatest score in which every \<open>\u0026\<close> is
  replaced by \<open>&\<close>: no \<open>\u0026\<close> is left in it, a URL without one is unchanged, and
  a URL with its first backslash opening a \<open>\u0026\<close> has \<open>&\<close> in that place. \<open>list(set(_))\<close>
  may order the URLs in any way.
\<close>

theorem url_short_circuit:
  assumes "buf \<noteq> []" and "\<not> sent_done s"
      and "\<forall>xs. set (list_of_set rt xs) = set xs"
      and "URL_RE_findall (record_payload buf) \<noteq> []"
  shows "\<exists>best link.
           best \<in> set (URL_RE_findall (record_payload buf)) \<and>
           (\<forall>u\<in>set (URL_RE_findall (record_payload buf)). score_url rt u \<le> score_url rt best) \<and>
           link = py_replace (92 # lit ''u0026'') (lit ''&'') best \<and>
           \<not> py_in (92 # lit ''u0026'') link \<and>
           (\<not> py_in (92 # lit ''u0026'') best \<longrightarrow> link = best) \<and>
           (\<forall>x y. best = x @ (92 # lit ''u0026'') @ y \<and> 92 \<notin> set x \<longrightarrow>
                  link = x @ lit ''&'' @ py_replace (92 # lit ''u0026'') (lit ''&'') y) \<and>
           flush_and_emit rt dk s buf
             = Inr ([lit ''event: done\<newline>data: ''
                       @ json_dumps rt (JObj [(lit ''download_url'', JStr link)])
                       @ lit ''\<newline>\<newline>'',
                     lit '': EOF\<newline>\<newline>''],
                    s\<lparr>sent_done := True\<rparr>)"
proof -
  let ?d = "record_payload buf"
  let ?urls = "collect_urls_from_text rt ?d"
  have set_eq: "set ?urls = set (URL_RE_findall ?d)"
    using assms(3) by (simp add: collect_urls_from_text_def)
  with assms(4) have ne: "?urls \<noteq> []" by (metis set_empty)
  from pick_best_url_max [OF ne] obtain b where
    b: "pick_best_url rt ?urls = Some b" "b \<in> set ?urls"
       "\<forall>u\<in>set ?urls. score_url rt u \<le> score_url rt b"
    by blast
  from b(2) set_eq have bne: "b \<noteq> []" using findall_nonempty by blast
  from assms(4) have dne: "?d \<noteq> []" by auto
  define link where "link = py_replace escaped_amp (lit ''&'') b"
  have amp: "lit ''&'' = [38]" by (simp add: lit_def)
  have pat: "92 # lit ''u0026'' = escaped_amp" by (simp add: escaped_amp_def)
  have fl: "flush_and_emit rt dk s buf
          = Inr ([lit ''event: done\<newline>data: ''
                    @ json_dumps rt (JObj [(lit ''download_url'', JStr link)])
                    @ lit ''\<newline>\<newline>'',
                  lit '': EOF\<newline>\<newline>''],
                 s\<lparr>sent_done := True\<rparr>)"
    using flush_and_emit_record [OF assms(1,2) dne, of rt dk] b(1) bne
    by (simp add: opt_truthy_def link_def done_url_def eof_marker_def)
  have gone: "\<not> py_in escaped_amp link"
    unfolding link_def amp by (rule replace_amp_gone)
  have same: "\<not> py_in escaped_amp b \<longrightarrow> link = b"
    by (simp add: link_def replace_amp_id)
  have cut: "\<forall>x y. b = x @ escaped_amp @ y \<and> 92 \<notin> set x \<longrightarrow>
                 link = x @ lit ''&'' @ py_replace escaped_amp (lit ''&'') y"
    by (auto simp: link_def replace_amp_prefix replace_amp_head)
  show ?thesis
    unfolding pat
    using b(2,3) set_eq fl gone same cut link_def by blast
qed

text \<open>
  Claim C6. A record with a payload whose lower-casing contains \<open>token exhausted\<close>, and
  which holds no URL, is no ping and is not named \<open>endpoint\<close>, yields exactly the \<open>error\<close>
  event \<open>Token exhausted\<close> followed by the \<open>done\<close> event \<open>[DONE]\<close> and sets the session
  done; from then on \<open>flush_and_emit\<close> does nothing and the read loop stops at the next
  line it is given.
\<close>

theorem token_exhausted:
  assumes "buf \<noteq> []" and "\<not> sent_done s"
      and "list_of_set rt [] = []"
      and "record_payload buf \<noteq> []"
      and "URL_RE_findall (record_payload buf) = []"
      and "\<not> is_ping (case json_loads rt (record_payload buf) of None \<Rightarrow> JNull | Some v \<Rightarrow> v)"
      and "record_name buf \<noteq> lit ''endpoint''"
      and "py_in (lit ''token exhausted'') (str_lower rt (record_payload buf))"
  shows "flush_and_emit rt dk s buf
           = Inr ([lit ''event: error\<newline>data: Token exhausted\<newline>\<newline>'',
                   lit ''event: done\<newline>data: [DONE]\<newline>\<newline>''],
                  s\<lparr>sent_done := True\<rparr>) \<and>
         flush_and_emit rt dk (s\<lparr>sent_done := True\<rparr>) buf' = Inr ([], s\<lparr>sent_done := True\<rparr>) \<and>
         read_loop rt dk ending (raw_line # rest) buffer (s\<lparr>sent_done := True\<rparr>) = ([], [], None)"
proof -
  have e: "error_event (lit ''Token exhausted'')
             = lit ''event: error\<newline>data: Token exhausted\<newline>\<newline>''"
    by (simp add: error_event_def lit_def)
  have d: "done_literal = lit ''event: done\<newline>data: [DONE]\<newline>\<newline>''"
    by (simp add: done_literal_def)
  have "flush_and_emit rt dk s buf = handle_record rt dk s (record_name buf) (record_payload buf)"
    using flush_and_emit_record [OF assms(1,2,4), of rt dk] assms(3,5)
    by (simp add: collect_urls_from_text_def pick_best_url_def opt_truthy_def)
  also have "\<dots> = Inr ([error_event (lit ''Token exhausted''), done_literal], s\<lparr>sent_done := True\<rparr>)"
    using assms(2,6,7,8) by (simp add: handle_record_def Let_def)
  finally show ?thesis by (simp add: flush_and_emit_def e d)
qed

lemma example_list_of_set: "\<forall>xs. set (list_of_set example_runtime xs) = set xs"
  by (simp add: example_runtime_def)

lemma init_not_done: "\<not> sent_done init_session"
  by (simp add: init_session_def)

theorem url_short_circuit_witness:
  "flush_and_emit example_runtime example_deck init_session
     [lit ''data: ok https://x.test/out.pptx?signature=abc'' @ 92 # lit ''u0026x=1'']
   = Inr ([lit ''event: done\<newline>data: '' @ [123, 34] @ lit ''download_url'' @ [34, 58, 32, 34]
             @ lit ''https://x.test/out.pptx?signature=abc&x=1'' @ [34, 125]
             @ lit ''\<newline>\<newline>'',
           lit '': EOF\<newline>\<newline>''],
          init_session\<lparr>sent_done := True\<rparr>)"
proof -
  let ?buf = "[lit ''data: ok https://x.test/out.pptx?signature=abc'' @ 92 # lit ''u0026x=1'']"
  let ?url = "lit ''https://x.test/out.pptx?signature=abc'' @ 92 # lit ''u0026x=1''"
  have p: "record_payload ?buf = lit ''ok '' @ ?url"
    by (simp add: record_payload_join data_lines_def text_defs)
  have f: "URL_RE_findall (lit ''ok '' @ ?url) = [?url]"
    by (simp add: url_defs text_defs)
  have r: "py_replace (92 # lit ''u0026'') (lit ''&'') ?url
             = lit ''https://x.test/out.pptx?signature=abc&x=1''"
    by (simp add: text_defs)
  have j: "json_dumps example_runtime
             (JObj [(lit ''download_url'', JStr (lit ''https://x.test/out.pptx?signature=abc&x=1''))])
           = [123, 34] @ lit ''download_url'' @ [34, 58, 32, 34]
               @ lit ''https://x.test/out.pptx?signature=abc&x=1'' @ [34, 125]"
    by (simp add: example_runtime_def example_json_dumps_def)
  have ne: "URL_RE_findall (record_payload ?buf) \<noteq> []" by (simp only: p f) simp
  from url_short_circuit [OF _ init_not_done example_list_of_set ne, of example_deck]
  obtain best link where
    b: "best \<in> set (URL_RE_findall (record_payload ?buf))"
       "link = py_replace (92 # lit ''u0026'') (lit ''&'') best"
    and fl: "flush_and_emit example_runtime example_deck init_session ?buf
              = Inr ([lit ''event: done\<newline>data: ''
                        @ json_dumps example_runtime (JObj [(lit ''download_url'', JStr link)])
                        @ lit ''\<newline>\<newline>'',
                      lit '': EOF\<newline>\<newline>''],
                     init_session\<lparr>sent_done := True\<rparr>)"
    by auto
  from b(1) have "best = ?url" by (simp only: p f) simp
  with b(2) r have "link = lit ''https://x.test/out.pptx?signature=abc&x=1''" by simp
  with fl j show ?thesis by simp
qed

theorem token_exhausted_witness:
  "flush_and_emit example_runtime example_deck init_session [lit ''data: Error: TOKEN Exhausted'']
     = Inr ([lit ''event: error\<newline>data: Token exhausted\<newline>\<newline>'',
             lit ''event: done\<newline>data: [DONE]\<newline>\<newline>''],
            init_session\<lparr>sent_done := True\<rparr>) \<and>
   read_loop example_runtime example_deck None [ascii_bytes ''data: more'', []] []
       (init_session\<lparr>sent_done := True\<rparr>) = ([], [], None)"
proof -
  let ?buf = "[lit ''data: Error: TOKEN Exhausted'']"
  have p: "record_payload ?buf = lit ''Error: TOKEN Exhausted''"
    by (simp add: record_payload_join data_lines_def text_defs)
  have n: "record_name ?buf = lit ''message''"
    by (simp add: record_name_def parse_fields_eq event_lines_def text_defs)
  have f: "URL_RE_findall (lit ''Error: TOKEN Exhausted'') = []"
    by (simp add: url_defs text_defs)
  have j: "json_loads example_runtime (lit ''Error: TOKEN Exhausted'') = None"
    by (simp add: example_runtime_def example_json_loads_def handshake_json_def lit_def)
  have t: "py_in (lit ''token exhausted'') (str_lower example_runtime (lit ''Error: TOKEN Exhausted''))"
    by (simp add: example_lower ascii_lower_def text_defs)
  have h1: "list_of_set example_runtime [] = []" by (simp add: example_runtime_def)
  have h0: "record_payload ?buf \<noteq> []" by (simp only: p) (simp add: lit_def)
  have h2: "URL_RE_findall (record_payload ?buf) = []" by (simp only: p f)
  have h3: "\<not> is_ping (case json_loads example_runtime (record_payload ?buf) of
                         None \<Rightarrow> JNull | Some v \<Rightarrow> v)"
    by (simp only: p j) (simp add: is_ping_def)
  have h4: "record_name ?buf \<noteq> lit ''endpoint''" by (simp only: n) (simp add: lit_def)
  have h5: "py_in (lit ''token exhausted'') (str_lower example_runtime (record_payload ?buf))"
    by (simp only: p t)
  from token_exhausted [OF _ init_not_done h1 h0 h2 h3 h4 h5,
      of example_deck "[]" None "ascii_bytes ''data: more''" "[[]]" "[]"]
  show ?thesis by simp
qed

text \<open>
  The claim C3 as stated fails on a \<open>data:\<close> line with more than one space after the
  colon: the code strips them all, not exactly one.
\<close>

theorem one_space_counterexample:
  "record_payload [lit ''data: a'', lit ''data:   b''] = [97, 10, 98] \<and>
   spec_payload [lit ''data: a'', lit ''data:   b''] = [97, 10, 32, 32, 98] \<and>
   flush_and_emit example_runtime example_deck init_session [lit ''data: a'', lit ''data:   b'']
     = Inr ([log_event [97, 10, 98]], init_session)"
proof -
  let ?buf = "[lit ''data: a'', lit ''data:   b'']"
  have p: "record_payload ?buf = [97, 10, 98]"
    by (simp add: record_payload_join data_lines_def text_defs)
  have sp: "spec_payload ?buf = [97, 10, 32, 32, 98]"
    by (simp add: spec_payload_def data_lines_def strip_one_space_def text_defs)
  have n: "record_name ?buf = lit ''message''"
    by (simp add: record_name_def parse_fields_eq event_lines_def text_defs)
  have f: "URL_RE_findall [97, 10, 98] = []"
    by (simp add: url_defs text_defs)
  have j: "json_loads example_runtime [97, 10, 98] = None"
    by (simp add: example_runtime_def example_json_loads_def handshake_json_def lit_def)
  have t: "\<not> py_in (lit ''token exhausted'') (str_lower example_runtime [97, 10, 98])"
    by (simp add: example_lower ascii_lower_def text_defs)
  have h: "handle_record example_runtime example_deck init_session (lit ''message'') [97, 10, 98]
             = Inr ([log_event [97, 10, 98]], init_session)"
    using t by (simp add: handle_record_def j is_ping_def log_msg_of_def json_log_msg_def fstring_def)
               (simp add: text_defs)
  have c: "collect_urls_from_text example_runtime [97, 10, 98] = []"
    by (simp only: collect_urls_from_text_def f) (simp add: example_runtime_def)
  have "flush_and_emit example_runtime example_deck init_session ?buf
          = Inr ([log_event [97, 10, 98]], init_session)"
    using flush_and_emit_record [of ?buf init_session example_runtime example_deck] init_not_done
    by (simp add: p n c h pick_best_url_def opt_truthy_def)
  with p sp show ?thesis by simp
qed

theorem record_assembly_witness:
  "record_name [lit ''event: a'', lit ''data: x'', lit ''event:  log '', lit ''data:   y'']
     = lit ''log'' \<and>
   record_payload [lit ''event: a'', lit ''data: x'', lit ''event:  log '', lit ''data:   y'']
     = [120, 10, 121] \<and>
   flush_and_emit example_runtime example_deck init_session [lit ''event: log'', lit ''data:'']
     = Inr ([], init_session)"
  using record_assembly [of "[lit ''event: a'', lit ''data: x'', lit ''event:  log '', lit ''data:   y'']"]
    record_assembly [of "[lit ''event: log'', lit ''data:'']" example_runtime example_deck init_session]
  by (simp add: event_lines_def data_lines_def py_startswith_def py_strip_def py_lstrip_def
      py_rstrip_def py_isspace_def lit_def)

section \<open>Properties of a whole session\<close>

lemma is_done_literal [simp]: "is_done_event done_literal"
  by (simp add: is_done_event_def done_literal_def py_startswith_def lit_def)

lemma is_done_url [simp]: "is_done_event (done_url rt l)"
  by (simp add: is_done_event_def done_url_def py_startswith_def lit_def)

lemma not_done_error [simp]: "\<not> is_done_event (error_event m)"
  by (simp add: is_done_event_def error_event_def py_startswith_def lit_def)

lemma not_done_log [simp]: "\<not> is_done_event (log_event m)"
  by (simp add: is_done_event_def log_event_def py_startswith_def lit_def)

lemma not_done_eof [simp]: "\<not> is_done_event eof_marker"
  by (simp add: is_done_event_def eof_marker_def py_startswith_def lit_def)

lemma handle_endpoint_facts:
  assumes "handle_endpoint rt dk s d = Inr (out, s')" and nd: "\<not> sent_done s"
  shows "step_facts rt dk s out s'"
proof (cases "endpoint_and_context_from_data rt d")
  case (Inl e)
  with assms show ?thesis by (simp add: handle_endpoint_def)
next
  case (Inr r)
  obtain ep ctx where r: "r = (ep, ctx)" by (cases r)
  show ?thesis
  proof (cases "\<not> called s \<and> opt_truthy ep")
    case False
    with assms Inr r show ?thesis
      by (auto simp: handle_endpoint_def step_facts_def Let_def)
  next
    case True
    show ?thesis
    proof (cases "requests_post rt (length (posts s)) (the ep)
                    (trigger_payload rt dk (if ctx \<noteq> [] then dict_update (session_context s) ctx
                                            else session_context s))")
      case None
      with assms Inr r True show ?thesis
        by (auto simp: handle_endpoint_def step_facts_def Let_def)
    next
      case (Some e)
      with assms Inr r True show ?thesis
        by (auto simp: handle_endpoint_def step_facts_def Let_def)
    qed
  qed
qed

lemma handle_record_facts:
  assumes "handle_record rt dk s name d = Inr (out, s')" and nd: "\<not> sent_done s"
  shows "step_facts rt dk s out s'"
proof -
  let ?j = "case json_loads rt d of None \<Rightarrow> JNull | Some v \<Rightarrow> v"
  consider (ping) "is_ping ?j"
    | (endpoint) "\<not> is_ping ?j" "name = lit ''endpoint''"
    | (token) "\<not> is_ping ?j" "name \<noteq> lit ''endpoint''"
              "py_in (lit ''token exhausted'') (str_lower rt d)"
    | (log) "\<not> is_ping ?j" "name \<noteq> lit ''endpoint''"
              "\<not> py_in (lit ''token exhausted'') (str_lower rt d)"
    by blast
  then show ?thesis
  proof cases
    case ping
    with assms show ?thesis by (auto simp: handle_record_def step_facts_def Let_def)
  next
    case endpoint
    with assms have "handle_endpoint rt dk s d = Inr (out, s')"
      by (simp add: handle_record_def Let_def)
    then show ?thesis using nd by (rule handle_endpoint_facts)
  next
    case token
    with assms show ?thesis
      by (auto simp: handle_record_def step_facts_def Let_def)
  next
    case log
    with assms show ?thesis
      by (auto simp: handle_record_def step_facts_def Let_def split: sum.splits if_splits)
  qed
qed

lemma flush_and_emit_facts:
  assumes "flush_and_emit rt dk s buf = Inr (out, s')"
  shows "step_facts rt dk s out s'"
proof (cases "buf = [] \<or> sent_done s \<or> record_payload buf = []")
  case True
  with assms have "out = [] \<and> s' = s"
    by (auto simp: flush_and_emit_def record_payload_def Let_def split: prod.splits if_splits)
  then show ?thesis by (simp add: step_facts_def)
next
  case False
  let ?best = "pick_best_url rt
                 (collect_urls_from_text rt (record_payload buf))"
  show ?thesis
  proof (cases "opt_truthy ?best")
    case True
    with assms False have "out = [done_url rt (py_replace escaped_amp (lit ''&'') (the ?best)), eof_marker]
        \<and> s' = s\<lparr>sent_done := True\<rparr>"
      by (auto simp: flush_and_emit_def record_payload_def Let_def split: prod.splits)
    then show ?thesis using False by (auto simp: step_facts_def)
  next
    case nb: False
    with assms False have "handle_record rt dk s (record_name buf) (record_payload buf) = Inr (out, s')"
      by (auto simp: flush_and_emit_def record_payload_def record_name_def Let_def split: prod.splits)
    then show ?thesis using False by (simp add: handle_record_facts)
  qed
qed

lemma read_loop_facts:
  assumes "read_loop rt dk ending lines buffer s = (out, tr, e)"
  shows "along (\<lambda>a b. \<exists>ou. step_facts rt dk a ou b) s tr \<and>
         (\<not> sent_done s \<longrightarrow>
            length (filter is_done_event out) = (if sent_done (last (s # tr)) then 1 else 0)) \<and>
         (sent_done s \<longrightarrow> out = [] \<and> tr = []) \<and>
         (\<forall>c\<in>set out. is_done_event c \<longrightarrow> c = done_literal \<or> (\<exists>link. c = done_url rt link))"
  using assms
proof (induction rt dk ending lines buffer s arbitrary: out tr e rule: read_loop.induct)
  case (1 rt dk ending buffer s)
  then show ?case by simp
next
  case (2 rt dk ending raw_line rest buffer s)
  show ?case
  proof (cases "sent_done s")
    case True
    with 2(3) show ?thesis by simp
  next
    case nd: False
    show ?thesis
    proof (cases "raw_line \<noteq> []")
      case True
      show ?thesis
      proof (cases "safe_decode raw_line")
        case (Inl ex)
        with 2(3) nd True show ?thesis by simp
      next
        case (Inr line)
        with 2(3) nd True have "read_loop rt dk ending rest (buffer @ [py_strip line]) s = (out, tr, e)"
          by simp
        from 2(1) [OF nd True Inr this] show ?thesis .
      qed
    next
      case False
      show ?thesis
      proof (cases "flush_and_emit rt dk s buffer")
        case (Inl ex)
        with 2(3) nd False show ?thesis by simp
      next
        case (Inr r)
        obtain o1 s1 where r: "r = (o1, s1)" by (cases r)
        obtain o2 tr2 e2 where rl: "read_loop rt dk ending rest [] s1 = (o2, tr2, e2)"
          by (cases "read_loop rt dk ending rest [] s1") auto
        from 2(3) nd False Inr r rl have res: "out = o1 @ o2" "tr = s1 # tr2" "e = e2"
          by simp_all
        have sf: "step_facts rt dk s o1 s1"
          using Inr r by (simp add: flush_and_emit_facts)
        have ih: "along (\<lambda>a b. \<exists>ou. step_facts rt dk a ou b) s1 tr2 \<and>
          (\<not> sent_done s1 \<longrightarrow>
             length (filter is_done_event o2) = (if sent_done (last (s1 # tr2)) then 1 else 0)) \<and>
          (sent_done s1 \<longrightarrow> o2 = [] \<and> tr2 = []) \<and>
          (\<forall>c\<in>set o2. is_done_event c \<longrightarrow> c = done_literal \<or> (\<exists>link. c = done_url rt link))"
          by (rule 2(2) [OF nd False Inr r [symmetric] rl])
        have a: "along (\<lambda>a b. \<exists>ou. step_facts rt dk a ou b) s tr"
          using sf ih res by auto
        have b: "length (filter is_done_event out) = (if sent_done (last (s # tr)) then 1 else 0)"
          using sf ih res nd by (cases "sent_done s1") (auto simp: step_facts_def)
        have c: "\<forall>c\<in>set out. is_done_event c \<longrightarrow> c = done_literal \<or> (\<exists>link. c = done_url rt link)"
          using sf ih res by (auto simp: step_facts_def)
        from a b c nd show ?thesis by simp
      qed
    qed
  qed
qed

lemma along_mono:
  "along P s tr \<Longrightarrow> (\<And>a b. P a b \<Longrightarrow> Q a b) \<Longrightarrow> along Q s tr"
  by (induction tr arbitrary: s) auto

lemma rises_called:
  "along (\<lambda>a b. called a \<longrightarrow> called b) s tr \<Longrightarrow>
     rises (map called (s # tr)) \<le> (if called s then 0 else 1)"
proof (induction tr arbitrary: s)
  case Nil
  then show ?case by simp
next
  case (Cons s' tr)
  from Cons.prems have st: "called s \<longrightarrow> called s'"
    and rest: "along (\<lambda>a b. called a \<longrightarrow> called b) s' tr" by simp_all
  from Cons.IH [OF rest] st show ?case by (auto split: if_splits)
qed

lemma posts_along:
  "along (\<lambda>a b. \<exists>ou. step_facts rt dk a ou b) s tr \<Longrightarrow> posts_inv s \<Longrightarrow>
     posts_inv (last (s # tr)) \<and> along (trigger_step rt dk) s tr"
proof (induction tr arbitrary: s)
  case Nil
  then show ?case by simp
next
  case (Cons s' tr)
  from Cons.prems(1) obtain ou where sf: "step_facts rt dk s ou s'"
    and rest: "along (\<lambda>a b. \<exists>ou. step_facts rt dk a ou b) s' tr" by auto
  have inv': "posts_inv s'"
    using sf Cons.prems(2) unfolding step_facts_def posts_inv_def by auto
  have ts: "trigger_step rt dk s s'"
    using sf Cons.prems(2) unfolding step_facts_def posts_inv_def trigger_step_def by auto
  from Cons.IH [OF rest inv'] ts show ?case by simp
qed

lemma one_done_event:
  "length (filter is_done_event (event_stream rt dk up)) = 1 \<and>
   (\<forall>c\<in>set (event_stream rt dk up).
      is_done_event c \<longrightarrow> c = done_literal \<or> (\<exists>link. c = done_url rt link))"
proof (cases up)
  case (ConnectError ex)
  then show ?thesis by (simp add: event_stream_def run_session_def)
next
  case (Response status_code body lines ending)
  show ?thesis
  proof (cases "status_code = 200")
    case False
    with Response show ?thesis by (simp add: event_stream_def run_session_def)
  next
    case True
    obtain out tr e where rl: "read_loop rt dk ending lines [] init_session = (out, tr, e)"
      by (cases "read_loop rt dk ending lines [] init_session") auto
    from read_loop_facts [OF rl] init_not_done
    have n: "length (filter is_done_event out) = (if sent_done (last (init_session # tr)) then 1 else 0)"
      and k: "\<forall>c\<in>set out. is_done_event c \<longrightarrow> c = done_literal \<or> (\<exists>link. c = done_url rt link)"
      by simp_all
    show ?thesis
    proof (cases e)
      case None
      with Response True rl n k show ?thesis
        by (auto simp: event_stream_def run_session_def Let_def)
    next
      case (Some ex)
      with Response True rl n k show ?thesis
        by (auto simp: event_stream_def run_session_def Let_def)
    qed
  qed
qed

lemma handle_endpoint_literal:
  assumes "handle_endpoint rt dk s d = Inr (out, s')" "c \<in> set out" "is_done_event c"
  shows "c = done_literal"
  using assms
  by (auto simp: handle_endpoint_def Let_def split: sum.splits prod.splits option.splits if_splits)

lemma handle_record_literal:
  assumes "handle_record rt dk s name d = Inr (out, s')" "c \<in> set out" "is_done_event c"
  shows "c = done_literal"
proof -
  let ?j = "case json_loads rt d of None \<Rightarrow> JNull | Some v \<Rightarrow> v"
  consider (ping) "is_ping ?j"
    | (endpoint) "\<not> is_ping ?j" "name = lit ''endpoint''"
    | (token) "\<not> is_ping ?j" "name \<noteq> lit ''endpoint''"
              "py_in (lit ''token exhausted'') (str_lower rt d)"
    | (log) "\<not> is_ping ?j" "name \<noteq> lit ''endpoint''"
              "\<not> py_in (lit ''token exhausted'') (str_lower rt d)"
    by blast
  then show ?thesis
  proof cases
    case ping
    with assms show ?thesis by (auto simp: handle_record_def Let_def)
  next
    case endpoint
    with assms(1) have "handle_endpoint rt dk s d = Inr (out, s')"
      by (simp add: handle_record_def Let_def)
    then show ?thesis using assms(2,3) by (rule handle_endpoint_literal)
  next
    case token
    with assms show ?thesis by (auto simp: handle_record_def Let_def split: if_splits)
  next
    case log
    with assms show ?thesis
      by (auto simp: handle_record_def Let_def split: sum.splits if_splits)
  qed
qed

lemma flush_and_emit_literal:
  assumes "flush_and_emit rt dk s buf = Inr (out, s')"
      and "list_of_set rt [] = []" and "URL_RE_findall (record_payload buf) = []"
      and "c \<in> set out" and "is_done_event c"
  shows "c = done_literal"
proof (cases "buf = [] \<or> sent_done s \<or> record_payload buf = []")
  case True
  with assms(1) have "out = []"
    by (auto simp: flush_and_emit_def record_payload_def Let_def split: prod.splits if_splits)
  with assms(4) show ?thesis by simp
next
  case False
  then have "flush_and_emit rt dk s buf = handle_record rt dk s (record_name buf) (record_payload buf)"
    using flush_and_emit_record [of buf s rt dk] assms(2,3)
    by (simp add: collect_urls_from_text_def pick_best_url_def opt_truthy_def)
  with assms(1) have "handle_record rt dk s (record_name buf) (record_payload buf) = Inr (out, s')"
    by simp
  then show ?thesis using assms(4,5) by (rule handle_record_literal)
qed

lemma read_loop_literal:
  assumes "read_loop rt dk ending lines buffer s = (out, tr, e)"
      and "list_of_set rt [] = []"
      and "\<forall>buf\<in>set (pending_records buffer lines). URL_RE_findall (record_payload buf) = []"
  shows "\<forall>c\<in>set out. is_done_event c \<longrightarrow> c = done_literal"
  using assms
proof (induction rt dk ending lines buffer s arbitrary: out tr e rule: read_loop.induct)
  case (1 rt dk ending buffer s)
  then show ?case by simp
next
  case (2 rt dk ending raw_line rest buffer s)
  show ?case
  proof (cases "sent_done s")
    case True
    with 2(3) show ?thesis by simp
  next
    case nd: False
    show ?thesis
    proof (cases "raw_line \<noteq> []")
      case True
      show ?thesis
      proof (cases "safe_decode raw_line")
        case (Inl ex)
        with 2(3) nd True show ?thesis by simp
      next
        case (Inr line)
        with 2(3) nd True have rl: "read_loop rt dk ending rest (buffer @ [py_strip line]) s = (out, tr, e)"
          by simp
        from 2(5) True Inr
        have pr: "\<forall>buf\<in>set (pending_records (buffer @ [py_strip line]) rest).
                    URL_RE_findall (record_payload buf) = []" by simp
        from 2(1) [OF nd True Inr rl 2(4) pr] show ?thesis .
      qed
    next
      case False
      show ?thesis
      proof (cases "flush_and_emit rt dk s buffer")
        case (Inl ex)
        with 2(3) nd False show ?thesis by simp
      next
        case (Inr r)
        obtain o1 s1 where r: "r = (o1, s1)" by (cases r)
        obtain o2 tr2 e2 where rl: "read_loop rt dk ending rest [] s1 = (o2, tr2, e2)"
          by (cases "read_loop rt dk ending rest [] s1") auto
        from 2(3) nd False Inr r rl have res: "out = o1 @ o2" by simp
        from 2(5) False have here: "URL_RE_findall (record_payload buffer) = []"
          and pr: "\<forall>buf\<in>set (pending_records [] rest). URL_RE_findall (record_payload buf) = []"
          by simp_all
        have a: "\<forall>c\<in>set o1. is_done_event c \<longrightarrow> c = done_literal"
          using flush_and_emit_literal [OF _ 2(4) here] Inr r by blast
        have b: "\<forall>c\<in>set o2. is_done_event c \<longrightarrow> c = done_literal"
          by (rule 2(2) [OF nd False Inr r [symmetric] rl 2(4) pr])
        from a b res show ?thesis by auto
      qed
    qed
  qed
qed

text \<open>
  The chunks of one run of \<open>event_stream\<close>: exactly one of them opens with the line
  \<open>event: done\<close>. It is the literal \<open>[DONE]\<close> one or the \<open>download_url\<close> one of the URL
  check, and the literal one when no record of the upstream has a URL in its payload.
\<close>

lemma one_done_chunk:
  "length (filter is_done_event (event_stream rt dk up)) = 1 \<and>
   (\<forall>c\<in>set (event_stream rt dk up).
      is_done_event c \<longrightarrow> c = done_literal \<or> (\<exists>link. c = done_url rt link)) \<and>
   (list_of_set rt [] = [] \<and>
    (\<forall>buf\<in>set (upstream_records up). URL_RE_findall (record_payload buf) = []) \<longrightarrow>
    filter is_done_event (event_stream rt dk up) = [done_literal])"
proof -
  have one: "length (filter is_done_event (event_stream rt dk up)) = 1"
    and kinds: "\<forall>c\<in>set (event_stream rt dk up).
      is_done_event c \<longrightarrow> c = done_literal \<or> (\<exists>link. c = done_url rt link)"
    using one_done_event [of rt dk up] by simp_all
  have lit: "filter is_done_event (event_stream rt dk up) = [done_literal]"
    if h: "list_of_set rt [] = []"
          "\<forall>buf\<in>set (upstream_records up). URL_RE_findall (record_payload buf) = []"
  proof -
    have all: "\<forall>c\<in>set (event_stream rt dk up). is_done_event c \<longrightarrow> c = done_literal"
    proof (cases up)
      case (ConnectError ex)
      then show ?thesis by (simp add: event_stream_def run_session_def)
    next
      case (Response status_code body lines ending)
      show ?thesis
      proof (cases "status_code = 200")
        case False
        with Response show ?thesis by (simp add: event_stream_def run_session_def)
      next
        case True
        obtain out tr e where rl: "read_loop rt dk ending lines [] init_session = (out, tr, e)"
          by (cases "read_loop rt dk ending lines [] init_session") auto
        from h(2) Response
        have "\<forall>buf\<in>set (pending_records [] lines). URL_RE_findall (record_payload buf) = []"
          by (simp add: upstream_records_def)
        from read_loop_literal [OF rl h(1) this]
        have "\<forall>c\<in>set out. is_done_event c \<longrightarrow> c = done_literal" .
        with Response True rl show ?thesis
          by (cases e) (auto simp: event_stream_def run_session_def Let_def)
      qed
    qed
    from one obtain c where c: "filter is_done_event (event_stream rt dk up) = [c]"
      by (cases "filter is_done_event (event_stream rt dk up)") auto
    then have "c \<in> set (filter is_done_event (event_stream rt dk up))" by simp
    then have "c \<in> set (event_stream rt dk up)" "is_done_event c" by simp_all
    with all have "c = done_literal" by blast
    with c show ?thesis by simp
  qed
  from one kinds lit show ?thesis by blast
qed

lemma smuggled_lines:
  "safe_decode (ascii_bytes ''data: x'') = Inr (lit ''data: x'')"
  "safe_decode (ascii_bytes ''data:'') = Inr (lit ''data:'')"
  "safe_decode (ascii_bytes ''data: event: done'') = Inr (lit ''data: event: done'')"
  "safe_decode (ascii_bytes ''data: data: [DONE]'') = Inr (lit ''data: data: [DONE]'')"
  "ascii_bytes ''data: x'' \<noteq> []"
  "ascii_bytes ''data:'' \<noteq> []"
  "ascii_bytes ''data: event: done'' \<noteq> []"
  "ascii_bytes ''data: data: [DONE]'' \<noteq> []"
  by (simp_all add: safe_decode_def bytes_decode_def ascii_bytes_def lit_def)

lemma smuggled_strips:
  "py_strip (lit ''data: x'') = lit ''data: x''"
  "py_strip (lit ''data:'') = lit ''data:''"
  "py_strip (lit ''data: event: done'') = lit ''data: event: done''"
  "py_strip (lit ''data: data: [DONE]'') = lit ''data: data: [DONE]''"
  by (simp_all add: text_defs)

lemma smuggled_fields:
  "record_name smuggled_record = lit ''message''"
  "record_payload smuggled_record = lit ''x\<newline>\<newline>event: done\<newline>data: [DONE]''"
  by (simp_all add: smuggled_record_def record_name_def record_payload_join parse_fields_eq
      event_lines_def data_lines_def text_defs)

lemma smuggled_flush:
  "flush_and_emit example_runtime example_deck init_session smuggled_record
     = Inr ([lit ''event: log\<newline>data: x\<newline>\<newline>event: done\<newline>data: [DONE]\<newline>\<newline>''], init_session)"
proof -
  let ?d = "lit ''x\<newline>\<newline>event: done\<newline>data: [DONE]''"
  have f: "URL_RE_findall ?d = []"
    by (simp add: url_defs text_defs)
  have j: "json_loads example_runtime ?d = None"
    by (simp add: example_runtime_def example_json_loads_def handshake_json_def lit_def)
  have t: "\<not> py_in (lit ''token exhausted'') (str_lower example_runtime ?d)"
    by (simp add: example_lower ascii_lower_def text_defs)
  have h: "handle_record example_runtime example_deck init_session (lit ''message'') ?d
             = Inr ([log_event ?d], init_session)"
    using t by (simp add: handle_record_def j is_ping_def log_msg_of_def json_log_msg_def fstring_def)
               (simp add: text_defs)
  have c: "collect_urls_from_text example_runtime ?d = []"
    by (simp only: collect_urls_from_text_def f) (simp add: example_runtime_def)
  have ne: "smuggled_record \<noteq> []" by (simp add: smuggled_record_def)
  have pn: "?d \<noteq> []" by (simp add: lit_def)
  have "flush_and_emit example_runtime example_deck init_session smuggled_record
          = Inr ([log_event ?d], init_session)"
    using flush_and_emit_record [of smuggled_record init_session example_runtime example_deck]
      init_not_done ne pn
    by (simp add: smuggled_fields c h pick_best_url_def opt_truthy_def)
  then show ?thesis by (simp add: log_event_def lit_def)
qed

lemma smuggled_run:
  "event_stream example_runtime example_deck smuggled_done
     = [lit ''event: log\<newline>data: x\<newline>\<newline>event: done\<newline>data: [DONE]\<newline>\<newline>'',
        lit ''event: done\<newline>data: [DONE]\<newline>\<newline>'']"
proof -
  have "read_loop example_runtime example_deck None
          [ascii_bytes ''data: x'', ascii_bytes ''data:'', ascii_bytes ''data: event: done'',
           ascii_bytes ''data: data: [DONE]'', []] [] init_session
        = ([lit ''event: log\<newline>data: x\<newline>\<newline>event: done\<newline>data: [DONE]\<newline>\<newline>''], [init_session], None)"
    using smuggled_flush
    by (simp add: smuggled_lines smuggled_strips init_not_done smuggled_record_def)
  then show ?thesis
    by (simp add: event_stream_def run_session_def smuggled_done_def init_not_done)
       (simp add: done_literal_def lit_def)
qed

lemma smuggled_split:
  "stream_records
     [lit ''event: log\<newline>data: x\<newline>\<newline>event: done\<newline>data: [DONE]\<newline>\<newline>'',
      lit ''event: done\<newline>data: [DONE]\<newline>\<newline>'']
   = [[lit ''event: log'', lit ''data: x''],
      [lit ''event: done'', lit ''data: [DONE]''],
      [lit ''event: done'', lit ''data: [DONE]'']]"
  by (simp add: stream_records_def lit_def)

lemma smuggled_names:
  "record_name [lit ''event: log'', lit ''data: x''] = lit ''log''"
  "record_name [lit ''event: done'', lit ''data: [DONE]''] = lit ''done''"
  by (simp_all add: record_name_def parse_fields_eq event_lines_def text_defs)

text \<open>
  Claim C1, on the upstream \<open>smuggled_done\<close>. The claim is that one session puts exactly
  one \<open>done\<close> event on the downstream stream. Every chunk that opens with \<open>event: done\<close> is
  guarded by \<open>sent_done\<close>, and one such chunk is yielded here as in every run; but the log
  chunk carries the payload of the record as it is, and this payload holds an empty line
  followed by the two lines of a \<open>done\<close> event. The text of the stream therefore has three
  records, and two of them are \<open>done\<close> events: the one inside the log chunk and the one
  forced at the end of the upstream.
\<close>

theorem two_done_events_read:
  "event_stream example_runtime example_deck smuggled_done
     = [lit ''event: log\<newline>data: x\<newline>\<newline>event: done\<newline>data: [DONE]\<newline>\<newline>'',
        lit ''event: done\<newline>data: [DONE]\<newline>\<newline>''] \<and>
   length (filter is_done_event (event_stream example_runtime example_deck smuggled_done)) = 1 \<and>
   stream_records (event_stream example_runtime example_deck smuggled_done)
     = [[lit ''event: log'', lit ''data: x''],
        [lit ''event: done'', lit ''data: [DONE]''],
        [lit ''event: done'', lit ''data: [DONE]'']] \<and>
   length (done_events_read (event_stream example_runtime example_deck smuggled_done)) = 2"
proof -
  have d: "lit ''log'' \<noteq> lit ''done''" by (simp add: lit_def)
  have i: "\<not> is_done_event (lit ''event: log\<newline>data: x\<newline>\<newline>event: done\<newline>data: [DONE]\<newline>\<newline>'')"
          "is_done_event (lit ''event: done\<newline>data: [DONE]\<newline>\<newline>'')"
    by (simp_all add: is_done_event_def text_defs)
  show ?thesis
    by (simp add: smuggled_run smuggled_split done_events_read_def smuggled_names d i)
qed

lemma run_session_trace:
  "along (\<lambda>a b. \<exists>ou. step_facts rt dk a ou b) init_session (snd (run_session rt dk up))"
proof (cases up)
  case (ConnectError ex)
  then show ?thesis by (simp add: run_session_def)
next
  case (Response status_code body lines ending)
  show ?thesis
  proof (cases "status_code = 200")
    case False
    with Response show ?thesis by (simp add: run_session_def)
  next
    case True
    obtain out tr e where rl: "read_loop rt dk ending lines [] init_session = (out, tr, e)"
      by (cases "read_loop rt dk ending lines [] init_session") auto
    from read_loop_facts [OF rl]
    have "along (\<lambda>a b. \<exists>ou. step_facts rt dk a ou b) init_session tr" by simp
    with Response True rl show ?thesis
      by (cases e) (simp_all add: run_session_def Let_def)
  qed
qed

lemma handle_endpoint_trigger:
  assumes "handle_endpoint rt dk s d = Inr (out, s')"
  shows "case endpoint_and_context_from_data rt d of
           Inl e \<Rightarrow> False
         | Inr (ep, ctx) \<Rightarrow>
             if \<not> called s \<and> opt_truthy ep
             then endpoint_url s' = ep \<and>
                  posts s' = posts s @ [(the ep, trigger_payload rt dk (session_context s'))] \<and>
                  (called s' \<longleftrightarrow>
                     requests_post rt (length (posts s)) (the ep)
                       (trigger_payload rt dk (session_context s')) = None)
             else posts s' = posts s \<and> called s' = called s"
proof (cases "endpoint_and_context_from_data rt d")
  case (Inl e)
  with assms show ?thesis by (simp add: handle_endpoint_def)
next
  case (Inr r)
  obtain ep ctx where r: "r = (ep, ctx)" by (cases r)
  show ?thesis
  proof (cases "\<not> called s \<and> opt_truthy ep")
    case False
    with assms Inr r show ?thesis
      by (auto simp: handle_endpoint_def Let_def)
  next
    case True
    show ?thesis
    proof (cases "requests_post rt (length (posts s)) (the ep)
                    (trigger_payload rt dk (if ctx \<noteq> [] then dict_update (session_context s) ctx
                                            else session_context s))")
      case None
      with assms Inr r True show ?thesis
        by (auto simp: handle_endpoint_def Let_def)
    next
      case (Some e)
      with assms Inr r True show ?thesis
        by (cases "sent_done s") (auto simp: handle_endpoint_def Let_def)
    qed
  qed
qed

lemma handle_record_no_trigger:
  assumes "handle_record rt dk s name d = Inr (out, s')"
      and "is_ping (case json_loads rt d of None \<Rightarrow> JNull | Some v \<Rightarrow> v) \<or> name \<noteq> lit ''endpoint''"
  shows "posts s' = posts s \<and> called s' = called s"
  using assms
  by (auto simp: handle_record_def Let_def split: if_splits sum.splits)

lemma trigger_payload_method:
  "json_field (trigger_payload rt dk ctx) (lit ''method'') = JStr (lit ''tools/call'')"
  by (simp add: json_field_def trigger_payload_def dict_get_def lit_def)

lemma flush_and_emit_trigger:
  assumes fl: "flush_and_emit rt dk s buf = Inr (out, s')"
  shows "trigger_rule rt dk s buf s'"
proof (cases "buf = [] \<or> sent_done s \<or> record_payload buf = []")
  case True
  with fl have "s' = s"
    by (auto simp: flush_and_emit_def record_payload_def Let_def split: prod.splits if_splits)
  moreover from True have "\<not> post_due rt s buf" by (auto simp: post_due_def)
  ultimately show ?thesis by (simp add: trigger_rule_def)
next
  case False
  let ?d = "record_payload buf"
  let ?best = "pick_best_url rt (collect_urls_from_text rt ?d)"
  let ?j = "case json_loads rt ?d of None \<Rightarrow> JNull | Some v \<Rightarrow> v"
  show ?thesis
  proof (cases "opt_truthy ?best")
    case True
    with fl False have "s' = s\<lparr>sent_done := True\<rparr>"
      using flush_and_emit_record [of buf s rt dk] by (simp add: Let_def)
    moreover from True have "\<not> post_due rt s buf" by (simp add: post_due_def)
    ultimately show ?thesis by (simp add: trigger_rule_def)
  next
    case nb: False
    with fl False have hr: "handle_record rt dk s (record_name buf) ?d = Inr (out, s')"
      using flush_and_emit_record [of buf s rt dk] by (simp add: Let_def)
    show ?thesis
    proof (cases "is_ping ?j \<or> record_name buf \<noteq> lit ''endpoint''")
      case True
      from handle_record_no_trigger [OF hr True]
      have "posts s' = posts s \<and> called s' = called s" .
      moreover from True have "\<not> post_due rt s buf" by (auto simp: post_due_def)
      ultimately show ?thesis by (simp add: trigger_rule_def)
    next
      case ne: False
      with hr have he: "handle_endpoint rt dk s ?d = Inr (out, s')"
        by (simp add: handle_record_def Let_def)
      show ?thesis
      proof (cases "endpoint_and_context_from_data rt ?d")
        case (Inl e)
        with he show ?thesis by (simp add: handle_endpoint_def)
      next
        case (Inr r)
        obtain ep ctx where r: "r = (ep, ctx)" by (cases r)
        have due: "post_due rt s buf \<longleftrightarrow> \<not> called s \<and> opt_truthy ep"
          using False nb ne Inr r by (auto simp: post_due_def)
        from handle_endpoint_trigger [OF he] Inr r
        have ht: "if \<not> called s \<and> opt_truthy ep
                  then endpoint_url s' = ep \<and>
                       posts s' = posts s @ [(the ep, trigger_payload rt dk (session_context s'))] \<and>
                       (called s' \<longleftrightarrow>
                          requests_post rt (length (posts s)) (the ep)
                            (trigger_payload rt dk (session_context s')) = None)
                  else posts s' = posts s \<and> called s' = called s"
          by simp
        show ?thesis
        proof (cases "\<not> called s \<and> opt_truthy ep")
          case True
          then obtain url where url: "ep = Some url" by (cases ep) (auto simp: opt_truthy_def)
          from ht True url due Inr r show ?thesis
            by (simp add: trigger_rule_def trigger_payload_method)
        next
          case False
          with ht due show ?thesis by (simp add: trigger_rule_def)
        qed
      qed
    qed
  qed
qed

lemma read_loop_records:
  assumes "read_loop rt dk ending lines buffer s = (out, tr, e)"
  shows "along_records (\<lambda>a r b. \<exists>ou. flush_and_emit rt dk a r = Inr (ou, b)) s
           (pending_records buffer lines) tr"
  using assms
proof (induction rt dk ending lines buffer s arbitrary: out tr e rule: read_loop.induct)
  case (1 rt dk ending buffer s)
  then show ?case by simp
next
  case (2 rt dk ending raw_line rest buffer s)
  show ?case
  proof (cases "sent_done s")
    case True
    with 2(3) show ?thesis by simp
  next
    case nd: False
    show ?thesis
    proof (cases "raw_line \<noteq> []")
      case True
      show ?thesis
      proof (cases "safe_decode raw_line")
        case (Inl ex)
        with 2(3) nd True show ?thesis by simp
      next
        case (Inr line)
        with 2(3) nd True have "read_loop rt dk ending rest (buffer @ [py_strip line]) s = (out, tr, e)"
          by simp
        from 2(1) [OF nd True Inr this] True Inr show ?thesis by simp
      qed
    next
      case False
      show ?thesis
      proof (cases "flush_and_emit rt dk s buffer")
        case (Inl ex)
        with 2(3) nd False show ?thesis by simp
      next
        case (Inr r)
        obtain o1 s1 where r: "r = (o1, s1)" by (cases r)
        obtain o2 tr2 e2 where rl: "read_loop rt dk ending rest [] s1 = (o2, tr2, e2)"
          by (cases "read_loop rt dk ending rest [] s1") auto
        from 2(3) nd False Inr r rl have res: "tr = s1 # tr2" by simp
        have "along_records (\<lambda>a r b. \<exists>ou. flush_and_emit rt dk a r = Inr (ou, b)) s1
                (pending_records [] rest) tr2"
          by (rule 2(2) [OF nd False Inr r [symmetric] rl])
        with Inr r res False show ?thesis by auto
      qed
    qed
  qed
qed

lemma along_records_mono:
  "along_records P s recs tr \<Longrightarrow> (\<And>a r b. P a r b \<Longrightarrow> Q a r b) \<Longrightarrow> along_records Q s recs tr"
  by (induction P s recs tr rule: along_records.induct) auto

lemma run_session_records:
  "along_records (\<lambda>a r b. \<exists>ou. flush_and_emit rt dk a r = Inr (ou, b)) init_session
     (upstream_records up) (snd (run_session rt dk up))"
proof (cases up)
  case (ConnectError ex)
  then show ?thesis by (simp add: run_session_def)
next
  case (Response status_code body lines ending)
  show ?thesis
  proof (cases "status_code = 200")
    case False
    with Response show ?thesis by (simp add: run_session_def)
  next
    case True
    obtain out tr e where rl: "read_loop rt dk ending lines [] init_session = (out, tr, e)"
      by (cases "read_loop rt dk ending lines [] init_session") auto
    from read_loop_records [OF rl] Response True rl show ?thesis
      by (cases e) (simp_all add: run_session_def Let_def upstream_records_def)
  qed
qed

text \<open>
  Claim C5. Along the sessions of one run the flag \<open>called\<close> goes from false to true at
  most once and at most one \<open>requests.post\<close> is made. It is made by the step on the first
  record for which the call is due, that is a processed handshake record that resolves an
  endpoint URL while the flag is false: that step posts a \<open>tools/call\<close> body to the URL it
  has resolved, with no call before it, and sets the flag when the call returns; a step
  on any other record makes no call and leaves the flag.
\<close>

theorem trigger_at_most_once:
  "rises (map called (init_session # snd (run_session rt dk up))) \<le> 1 \<and>
   length (posts (last (init_session # snd (run_session rt dk up)))) \<le> 1 \<and>
   along (trigger_step rt dk) init_session (snd (run_session rt dk up)) \<and>
   along_records (trigger_rule rt dk) init_session (upstream_records up)
     (snd (run_session rt dk up))"
proof -
  let ?tr = "snd (run_session rt dk up)"
  have al: "along (\<lambda>a b. \<exists>ou. step_facts rt dk a ou b) init_session ?tr"
    by (rule run_session_trace)
  have "along (\<lambda>a b. called a \<longrightarrow> called b) init_session ?tr"
    by (rule along_mono [OF al]) (auto simp: step_facts_def)
  from rises_called [OF this] have r: "rises (map called (init_session # ?tr)) \<le> 1"
    by (simp split: if_splits)
  have "posts_inv init_session" by (simp add: posts_inv_def init_session_def)
  from posts_along [OF al this]
  have p: "posts_inv (last (init_session # ?tr))" and t: "along (trigger_step rt dk) init_session ?tr"
    by simp_all
  from p have l: "length (posts (last (init_session # ?tr))) \<le> 1"
    by (auto simp: posts_inv_def)
  have "along_records (trigger_rule rt dk) init_session (upstream_records up) ?tr"
    by (rule along_records_mono [OF run_session_records]) (auto intro: flush_and_emit_trigger)
  with r l t show ?thesis by simp
qed

text \<open>
  Claim C2, as amended. Every handshake record that is processed (not done, no URL in
  the payload, no ping) leaves the session's endpoint URL equal to what it resolves,
  whatever the URL was before: the last handshake wins.
\<close>

theorem handshake_overwrites_endpoint:
  assumes "buf \<noteq> []" and "\<not> sent_done s"
      and "list_of_set rt [] = []"
      and "URL_RE_findall (record_payload buf) = []"
      and "record_payload buf \<noteq> []"
      and "\<not> is_ping (case json_loads rt (record_payload buf) of None \<Rightarrow> JNull | Some v \<Rightarrow> v)"
      and "record_name buf = lit ''endpoint''"
      and "endpoint_and_context_from_data rt (record_payload buf) = Inr (ep, ctx)"
  shows "\<exists>out s'. flush_and_emit rt dk s buf = Inr (out, s') \<and> endpoint_url s' = ep"
proof -
  have "flush_and_emit rt dk s buf = handle_record rt dk s (record_name buf) (record_payload buf)"
    using flush_and_emit_record [OF assms(1,2,5), of rt dk] assms(3,4)
    by (simp add: collect_urls_from_text_def pick_best_url_def opt_truthy_def)
  also have "\<dots> = handle_endpoint rt dk s (record_payload buf)"
    using assms(6,7) by (simp add: handle_record_def Let_def)
  finally have fl: "flush_and_emit rt dk s buf = handle_endpoint rt dk s (record_payload buf)" .
  show ?thesis
    unfolding fl using assms(8)
    by (auto simp: handle_endpoint_def Let_def split: option.splits)
qed

subsection \<open>The session with two handshakes, step by step\<close>

lemma example_endpoint_1:
  "endpoint_and_context_from_data example_runtime (lit ''/open/message?sessionId=abc123'')
     = Inr (Some first_endpoint, [(lit ''sessionId'', JStr (lit ''abc123''))])"
  by (simp add: endpoint_and_context_from_data_def meta_fields_def example_runtime_def
      example_url_query_def py_split1_def query_keys_def first_endpoint_def text_defs)

lemma example_endpoint_2:
  "endpoint_and_context_from_data example_runtime (lit ''/open/message?sessionId=zzz'')
     = Inr (Some second_endpoint, [(lit ''sessionId'', JStr (lit ''zzz''))])"
  by (simp add: endpoint_and_context_from_data_def meta_fields_def example_runtime_def
      example_url_query_def py_split1_def query_keys_def second_endpoint_def text_defs)

lemma example_not_json:
  "json_loads example_runtime (lit ''/open/message?sessionId=abc123'') = None"
  "json_loads example_runtime (lit ''/open/message?sessionId=zzz'') = None"
  by (simp_all add: example_runtime_def example_json_loads_def handshake_json_def lit_def)

lemma example_no_urls: "list_of_set example_runtime [] = []"
  by (simp add: example_runtime_def)

lemma example_post: "requests_post example_runtime n u p = None"
  by (simp add: example_runtime_def)

lemma first_record_fields:
  "record_name first_handshake_record = lit ''endpoint''"
  "record_payload first_handshake_record = lit ''/open/message?sessionId=abc123''"
  "URL_RE_findall (lit ''/open/message?sessionId=abc123'') = []"
  by (simp_all add: first_handshake_record_def record_name_def record_payload_join parse_fields_eq
      event_lines_def data_lines_def url_defs text_defs)

lemma second_record_fields:
  "record_name second_handshake_record = lit ''endpoint''"
  "record_payload second_handshake_record = lit ''/open/message?sessionId=zzz''"
  "URL_RE_findall (lit ''/open/message?sessionId=zzz'') = []"
  by (simp_all add: second_handshake_record_def record_name_def record_payload_join parse_fields_eq
      event_lines_def data_lines_def url_defs text_defs)

lemma flush_handshake:
  assumes "buf \<noteq> []" and "\<not> sent_done s"
      and "list_of_set rt [] = []"
      and "URL_RE_findall (record_payload buf) = []"
      and "record_payload buf \<noteq> []"
      and "\<not> is_ping (case json_loads rt (record_payload buf) of None \<Rightarrow> JNull | Some v \<Rightarrow> v)"
      and "record_name buf = lit ''endpoint''"
  shows "flush_and_emit rt dk s buf = handle_endpoint rt dk s (record_payload buf)"
proof -
  have "flush_and_emit rt dk s buf = handle_record rt dk s (record_name buf) (record_payload buf)"
    using flush_and_emit_record [OF assms(1,2,5), of rt dk] assms(3,4)
    by (simp add: collect_urls_from_text_def pick_best_url_def opt_truthy_def)
  also have "\<dots> = handle_endpoint rt dk s (record_payload buf)"
    using assms(6,7) by (simp add: handle_record_def Let_def)
  finally show ?thesis .
qed

lemma flush_first_handshake:
  "flush_and_emit example_runtime example_deck init_session first_handshake_record
     = Inr ([log_event engine_connected], after_first_handshake)"
proof -
  have "flush_and_emit example_runtime example_deck init_session first_handshake_record
          = handle_endpoint example_runtime example_deck init_session
              (record_payload first_handshake_record)"
    by (rule flush_handshake)
       (simp_all add: first_record_fields example_no_urls example_not_json is_ping_def
          init_not_done, simp_all add: first_handshake_record_def lit_def)
  also have "\<dots> = Inr ([log_event engine_connected], after_first_handshake)"
    by (simp add: first_record_fields handle_endpoint_def example_endpoint_1 example_post
        opt_truthy_def Let_def init_session_def after_first_handshake_def dict_update_def)
       (simp add: first_endpoint_def lit_def)
  finally show ?thesis .
qed

lemma flush_second_handshake:
  "flush_and_emit example_runtime example_deck after_first_handshake second_handshake_record
     = Inr ([], after_second_handshake)"
proof -
  have nd: "\<not> sent_done after_first_handshake" by (simp add: after_first_handshake_def)
  have "flush_and_emit example_runtime example_deck after_first_handshake second_handshake_record
          = handle_endpoint example_runtime example_deck after_first_handshake
              (record_payload second_handshake_record)"
    by (rule flush_handshake)
       (simp_all add: second_record_fields example_no_urls example_not_json is_ping_def nd,
        simp_all add: second_handshake_record_def lit_def)
  also have "\<dots> = Inr ([], after_second_handshake)"
    by (simp add: second_record_fields handle_endpoint_def example_endpoint_2
        opt_truthy_def Let_def after_first_handshake_def after_second_handshake_def dict_update_def)
  finally show ?thesis .
qed

lemma example_lines:
  "safe_decode (ascii_bytes ''event: endpoint'') = Inr (lit ''event: endpoint'')"
  "safe_decode (ascii_bytes ''data: /open/message?sessionId=abc123'')
     = Inr (lit ''data: /open/message?sessionId=abc123'')"
  "safe_decode (ascii_bytes ''data: /open/message?sessionId=zzz'')
     = Inr (lit ''data: /open/message?sessionId=zzz'')"
  "ascii_bytes ''event: endpoint'' \<noteq> []"
  "ascii_bytes ''data: /open/message?sessionId=abc123'' \<noteq> []"
  "ascii_bytes ''data: /open/message?sessionId=zzz'' \<noteq> []"
  by (simp_all add: safe_decode_def bytes_decode_def ascii_bytes_def lit_def)

lemma example_strips:
  "py_strip (lit ''event: endpoint'') = lit ''event: endpoint''"
  "py_strip (lit ''data: /open/message?sessionId=abc123'') = lit ''data: /open/message?sessionId=abc123''"
  "py_strip (lit ''data: /open/message?sessionId=zzz'') = lit ''data: /open/message?sessionId=zzz''"
  by (simp_all add: text_defs)

lemma run_two_handshakes:
  "run_session example_runtime example_deck two_handshakes
     = ([log_event engine_connected, done_literal], [after_first_handshake, after_second_handshake])"
proof -
  have nd: "\<not> sent_done after_first_handshake" "\<not> sent_done after_second_handshake"
    by (simp_all add: after_first_handshake_def after_second_handshake_def)
  have f1: "flush_and_emit example_runtime example_deck init_session
              [lit ''event: endpoint'', lit ''data: /open/message?sessionId=abc123'']
            = Inr ([log_event engine_connected], after_first_handshake)"
    using flush_first_handshake by (simp add: first_handshake_record_def)
  have f2: "flush_and_emit example_runtime example_deck after_first_handshake
              [lit ''event: endpoint'', lit ''data: /open/message?sessionId=zzz'']
            = Inr ([], after_second_handshake)"
    using flush_second_handshake by (simp add: second_handshake_record_def)
  have "read_loop example_runtime example_deck None
          [ascii_bytes ''event: endpoint'', ascii_bytes ''data: /open/message?sessionId=abc123'', [],
           ascii_bytes ''event: endpoint'', ascii_bytes ''data: /open/message?sessionId=zzz'', []]
          [] init_session
        = ([log_event engine_connected], [after_first_handshake, after_second_handshake], None)"
    by (simp add: example_lines example_strips init_not_done nd f1 f2)
  then show ?thesis
    by (simp add: run_session_def two_handshakes_def nd)
qed

lemma records_two_handshakes:
  "upstream_records two_handshakes = [first_handshake_record, second_handshake_record]"
  by (simp add: upstream_records_def two_handshakes_def example_lines example_strips
      first_handshake_record_def second_handshake_record_def)

lemma example_due:
  "post_due example_runtime init_session first_handshake_record"
  "\<not> post_due example_runtime after_first_handshake second_handshake_record"
proof -
  have c: "collect_urls_from_text example_runtime (lit ''/open/message?sessionId=abc123'') = []"
    by (simp add: collect_urls_from_text_def first_record_fields example_no_urls)
  show "post_due example_runtime init_session first_handshake_record"
    by (simp add: post_due_def first_record_fields c pick_best_url_def opt_truthy_def
        example_not_json is_ping_def example_endpoint_1 init_session_def)
       (simp add: first_handshake_record_def first_endpoint_def lit_def)
  show "\<not> post_due example_runtime after_first_handshake second_handshake_record"
    by (simp add: post_due_def after_first_handshake_def)
qed

theorem trigger_at_most_once_witness:
  "map called (init_session # snd (run_session example_runtime example_deck two_handshakes))
     = [False, True, True] \<and>
   upstream_records two_handshakes = [first_handshake_record, second_handshake_record] \<and>
   post_due example_runtime init_session first_handshake_record \<and>
   \<not> post_due example_runtime after_first_handshake second_handshake_record \<and>
   map posts (snd (run_session example_runtime example_deck two_handshakes))
     = [[(first_endpoint,
          trigger_payload example_runtime example_deck [(lit ''sessionId'', JStr (lit ''abc123''))])],
        [(first_endpoint,
          trigger_payload example_runtime example_deck [(lit ''sessionId'', JStr (lit ''abc123''))])]]"
  using trigger_at_most_once [of example_runtime example_deck two_handshakes]
  by (simp add: run_two_handshakes records_two_handshakes init_session_def
      example_due [unfolded init_session_def after_first_handshake_def]
      after_first_handshake_def after_second_handshake_def)

text \<open>
  The claim C2 as stated fails: in the session with two handshakes the endpoint URL set
  by the first is replaced by that of the second.
\<close>

theorem first_handshake_wins_counterexample:
  "map endpoint_url (snd (run_session example_runtime example_deck two_handshakes))
     = [Some first_endpoint, Some second_endpoint] \<and>
   first_endpoint \<noteq> second_endpoint"
  by (simp add: run_two_handshakes after_first_handshake_def after_second_handshake_def
      first_endpoint_def second_endpoint_def lit_def)

theorem handshake_overwrites_endpoint_witness:
  "endpoint_url after_first_handshake = Some first_endpoint \<and>
   (\<exists>out s'. flush_and_emit example_runtime example_deck after_first_handshake second_handshake_record
                = Inr (out, s') \<and> endpoint_url s' = Some second_endpoint)"
proof -
  have nd: "\<not> sent_done after_first_handshake" by (simp add: after_first_handshake_def)
  have ne: "second_handshake_record \<noteq> []" by (simp add: second_handshake_record_def)
  have a: "URL_RE_findall (record_payload second_handshake_record) = []"
    by (simp add: second_record_fields)
  have b: "record_payload second_handshake_record \<noteq> []"
    by (simp add: second_record_fields) (simp add: lit_def)
  have c: "\<not> is_ping (case json_loads example_runtime (record_payload second_handshake_record) of
                        None \<Rightarrow> JNull | Some v \<Rightarrow> v)"
    by (simp add: second_record_fields example_not_json is_ping_def)
  have d: "endpoint_and_context_from_data example_runtime (record_payload second_handshake_record)
             = Inr (Some second_endpoint, [(lit ''sessionId'', JStr (lit ''zzz''))])"
    by (simp add: second_record_fields example_endpoint_2)
  from handshake_overwrites_endpoint
    [OF ne nd example_no_urls a b c second_record_fields(1) d, of example_deck]
  show ?thesis by (simp add: after_first_handshake_def)
qed

end
